theory Spec2Isabelle
  imports Main "HOL-Library.Word"
begin

text \<open>
  A model of \<open>src/App.jsx\<close>, a URL shortener that runs in the browser: the link store kept in
  \<open>localStorage\<close> (\<open>loadLinks\<close>, \<open>saveLinks\<close>), the redirect resolver
  (\<open>handleRedirect\<close>), the creation flow (\<open>validate\<close>, \<open>onSubmit\<close>,
  \<open>submitToBackend\<close>) and the statistics (\<open>stats\<close>). Values are JSON values, as the program
  has them; an exception is a result of the function that throws it.
\<close>

section \<open>Strings\<close>

text \<open>
  The program's strings are JavaScript strings. They are modelled as \<^typ>\<open>string\<close>: sequences of
  the code units 0 to 255 (Latin-1). On this alphabet \<open>toLowerCase\<close> and \<open>trim\<close> are exactly
  the functions below.
\<close>

definition lower_char :: "char \<Rightarrow> char" where
  "lower_char c =
     (let n = of_char c :: nat in
      if (65 \<le> n \<and> n \<le> 90) \<or> (192 \<le> n \<and> n \<le> 222 \<and> n \<noteq> 215)
      then char_of (n + 32) else c)"

definition toLowerCase :: "string \<Rightarrow> string" where
  "toLowerCase s = map lower_char s"

definition is_space :: "char \<Rightarrow> bool" where
  "is_space c = (of_char c \<in> {9, 10, 11, 12, 13, 32, 160 :: nat})"

definition trim :: "string \<Rightarrow> string" where
  "trim s = rev (dropWhile is_space (rev (dropWhile is_space s)))"

text \<open>\<open>/lit/.test(s)\<close> for a literal pattern: \<open>s\<close> contains \<open>lit\<close>.\<close>

fun contains :: "string \<Rightarrow> string \<Rightarrow> bool" where
  "contains p [] = (p = [])"
| "contains p (c # cs) = (take (length p) (c # cs) = p \<or> contains p cs)"

definition digit_char :: "nat \<Rightarrow> char" where
  "digit_char d = ''0123456789'' ! d"

fun digits_of :: "nat \<Rightarrow> string" where
  "digits_of n =
     (if n < 10 then [digit_char n]
      else digits_of (n div 10) @ [digit_char (n mod 10)])"

text \<open>The decimal text of an integer number, as string conversion and \<open>JSON.stringify\<close> write it.\<close>

definition show_int :: "int \<Rightarrow> string" where
  "show_int i = (if i < 0 then CHR ''-'' # digits_of (nat (- i)) else digits_of (nat i))"

fun join :: "string \<Rightarrow> string list \<Rightarrow> string" where
  "join sep [] = []"
| "join sep [x] = x"
| "join sep (x # y # ys) = x @ sep @ join sep (y # ys)"


section \<open>JSON values, \<open>JSON.stringify\<close> and \<open>JSON.parse\<close>\<close>

text \<open>
  The values the program stores and reads back. A number is an integer (the program's numbers are
  epoch-millisecond timestamps); an object is the list of its properties in insertion order
  (the platform lists property names that are array indices first; the program's records have
  none). \<open>JSON.stringify\<close> and \<open>JSON.parse\<close> belong to the platform, not to the
  repository; they are modelled here on these values. \<open>CHR 0x22\<close> is the double quote,
  \<open>CHR 0x5C\<close> the backslash.
\<close>

datatype json =
    JNull
  | JBool bool
  | JNum int
  | JStr string
  | JArr "json list"
  | JObj "(string \<times> json) list"

definition hex_digit :: "nat \<Rightarrow> char" where
  "hex_digit d = ''0123456789abcdef'' ! d"

definition quote_char :: "char \<Rightarrow> string" where
  "quote_char c =
     (if c = CHR 0x22 then [CHR 0x5C, CHR 0x22]
      else if c = CHR 0x5C then [CHR 0x5C, CHR 0x5C]
      else if c = CHR 0x08 then [CHR 0x5C, CHR ''b'']
      else if c = CHR 0x0C then [CHR 0x5C, CHR ''f'']
      else if c = CHR 0x0A then [CHR 0x5C, CHR ''n'']
      else if c = CHR 0x0D then [CHR 0x5C, CHR ''r'']
      else if c = CHR 0x09 then [CHR 0x5C, CHR ''t'']
      else if (of_char c :: nat) < 32
        then [CHR 0x5C, CHR ''u'', CHR ''0'', CHR ''0'',
              hex_digit (of_char c div 16), hex_digit (of_char c mod 16)]
      else [c])"

definition quote :: "string \<Rightarrow> string" where
  "quote s = CHR 0x22 # concat (map quote_char s) @ [CHR 0x22]"

fun JSON_stringify :: "json \<Rightarrow> string" where
  "JSON_stringify JNull = ''null''"
| "JSON_stringify (JBool b) = (if b then ''true'' else ''false'')"
| "JSON_stringify (JNum n) = show_int n"
| "JSON_stringify (JStr s) = quote s"
| "JSON_stringify (JArr xs) = ''['' @ join '','' (map JSON_stringify xs) @ '']''"
| "JSON_stringify (JObj ms) =
     ''{'' @ join '','' (map (\<lambda>(k, v). quote k @ '':'' @ JSON_stringify v) ms) @ ''}''"

text \<open>
  \<open>JSON.parse\<close> as a pushdown automaton that reads the text one code unit at a time. The stack
  holds the arrays and objects that are still open; the mode says what may come next. \<open>None\<close> is
  the \<open>SyntaxError\<close> of the platform. Two kinds of valid JSON text denote values outside
  \<^typ>\<open>json\<close> and are refused as well: a number with a fraction or an exponent, and an escape
  \<open>\uXXXX\<close> above \<open>00ff\<close>. So \<open>Some v\<close> says that the platform yields \<open>v\<close> (for
  integers that a double holds exactly), while \<open>None\<close> alone does not say that the platform
  throws; the theorems below rest on \<open>Some\<close> results only.
\<close>

datatype frame =
    Arr "json list"
  | Obj "(string \<times> json) list"
  | Member "(string \<times> json) list" string

datatype mode =
    Val
  | ArrOpen
  | ObjOpen
  | Key
  | Colon string
  | Done json
  | Lit string json
  | Minus
  | Digits bool nat
  | Chars bool string
  | Escape bool string
  | Hex bool string nat nat

type_synonym pstate = "mode \<times> frame list"

definition is_ws :: "char \<Rightarrow> bool" where
  "is_ws c = (c = CHR '' '' \<or> c = CHR 0x09 \<or> c = CHR 0x0A \<or> c = CHR 0x0D)"

definition digit_val :: "char \<Rightarrow> nat option" where
  "digit_val c =
     (let n = of_char c :: nat in if 48 \<le> n \<and> n \<le> 57 then Some (n - 48) else None)"

definition hex_val :: "char \<Rightarrow> nat option" where
  "hex_val c =
     (let n = of_char c :: nat in
      if 48 \<le> n \<and> n \<le> 57 then Some (n - 48)
      else if 97 \<le> n \<and> n \<le> 102 then Some (n - 87)
      else if 65 \<le> n \<and> n \<le> 70 then Some (n - 55)
      else None)"

text \<open>Defining a property: a name that is already there keeps its place and takes the new value.\<close>

fun put_member :: "(string \<times> json) list \<Rightarrow> string \<Rightarrow> json \<Rightarrow> (string \<times> json) list" where
  "put_member [] k v = [(k, v)]"
| "put_member ((k', v') # ms) k v =
     (if k' = k then (k, v) # ms else (k', v') # put_member ms k v)"

definition start_value :: "char \<Rightarrow> frame list \<Rightarrow> pstate option" where
  "start_value c K =
     (if c = CHR ''n'' then Some (Lit ''ull'' JNull, K)
      else if c = CHR ''t'' then Some (Lit ''rue'' (JBool True), K)
      else if c = CHR ''f'' then Some (Lit ''alse'' (JBool False), K)
      else if c = CHR 0x22 then Some (Chars False [], K)
      else if c = CHR ''-'' then Some (Minus, K)
      else if c = CHR ''['' then Some (ArrOpen, Arr [] # K)
      else if c = CHR ''{'' then Some (ObjOpen, Obj [] # K)
      else (case digit_val c of Some d \<Rightarrow> Some (Digits False d, K) | None \<Rightarrow> None))"

definition after_value :: "json \<Rightarrow> frame list \<Rightarrow> char \<Rightarrow> pstate option" where
  "after_value v K c =
     (if is_ws c then Some (Done v, K)
      else (case K of
          Arr xs # K' \<Rightarrow>
            if c = CHR '','' then Some (Val, Arr (v # xs) # K')
            else if c = CHR '']'' then Some (Done (JArr (rev (v # xs))), K')
            else None
        | Member ms k # K' \<Rightarrow>
            if c = CHR '','' then Some (Key, Obj (put_member ms k v) # K')
            else if c = CHR ''}'' then Some (Done (JObj (put_member ms k v)), K')
            else None
        | _ \<Rightarrow> None))"

definition unescape :: "char \<Rightarrow> char option" where
  "unescape c =
     (if c = CHR 0x22 \<or> c = CHR 0x5C \<or> c = CHR ''/'' then Some c
      else if c = CHR ''b'' then Some (CHR 0x08)
      else if c = CHR ''f'' then Some (CHR 0x0C)
      else if c = CHR ''n'' then Some (CHR 0x0A)
      else if c = CHR ''r'' then Some (CHR 0x0D)
      else if c = CHR ''t'' then Some (CHR 0x09)
      else None)"

fun step :: "pstate \<Rightarrow> char \<Rightarrow> pstate option" where
  "step (Val, K) c = (if is_ws c then Some (Val, K) else start_value c K)"
| "step (ArrOpen, K) c =
     (if is_ws c then Some (ArrOpen, K)
      else if c = CHR '']''
        then (case K of Arr [] # K' \<Rightarrow> Some (Done (JArr []), K') | _ \<Rightarrow> None)
      else start_value c K)"
| "step (ObjOpen, K) c =
     (if is_ws c then Some (ObjOpen, K)
      else if c = CHR ''}''
        then (case K of Obj [] # K' \<Rightarrow> Some (Done (JObj []), K') | _ \<Rightarrow> None)
      else if c = CHR 0x22 then Some (Chars True [], K)
      else None)"
| "step (Key, K) c =
     (if is_ws c then Some (Key, K)
      else if c = CHR 0x22 then Some (Chars True [], K)
      else None)"
| "step (Colon k, K) c =
     (if is_ws c then Some (Colon k, K)
      else if c = CHR '':''
        then (case K of Obj ms # K' \<Rightarrow> Some (Val, Member ms k # K') | _ \<Rightarrow> None)
      else None)"
| "step (Done v, K) c = after_value v K c"
| "step (Lit l v, K) c =
     (case l of
        [] \<Rightarrow> None
      | x # l' \<Rightarrow> if c = x then Some (if l' = [] then Done v else Lit l' v, K) else None)"
| "step (Minus, K) c =
     (case digit_val c of Some d \<Rightarrow> Some (Digits True d, K) | None \<Rightarrow> None)"
| "step (Digits neg n, K) c =
     (case digit_val c of
        Some d \<Rightarrow> if n = 0 then None else Some (Digits neg (10 * n + d), K)
      | None \<Rightarrow> after_value (JNum (if neg then - int n else int n)) K c)"
| "step (Chars key acc, K) c =
     (if c = CHR 0x22 then Some (if key then Colon (rev acc) else Done (JStr (rev acc)), K)
      else if c = CHR 0x5C then Some (Escape key acc, K)
      else if (of_char c :: nat) < 32 then None
      else Some (Chars key (c # acc), K))"
| "step (Escape key acc, K) c =
     (if c = CHR ''u'' then Some (Hex key acc 0 0, K)
      else (case unescape c of Some x \<Rightarrow> Some (Chars key (x # acc), K) | None \<Rightarrow> None))"
| "step (Hex key acc i n, K) c =
     (case hex_val c of
        None \<Rightarrow> None
      | Some d \<Rightarrow>
          if i < 3 then Some (Hex key acc (Suc i) (16 * n + d), K)
          else if 16 * n + d < 256 then Some (Chars key (char_of (16 * n + d) # acc), K)
          else None)"

fun run :: "pstate \<Rightarrow> string \<Rightarrow> pstate option" where
  "run st [] = Some st"
| "run st (c # cs) = (case step st c of None \<Rightarrow> None | Some st' \<Rightarrow> run st' cs)"

fun finish :: "pstate \<Rightarrow> json option" where
  "finish (Done v, []) = Some v"
| "finish (Digits neg n, []) = Some (JNum (if neg then - int n else int n))"
| "finish _ = None"

definition JSON_parse :: "string \<Rightarrow> json option" where
  "JSON_parse s = (case run (Val, []) s of None \<Rightarrow> None | Some st \<Rightarrow> finish st)"

text \<open>The value a mode stands for when the text of a value has just been read.\<close>

fun complete :: "mode \<Rightarrow> json option" where
  "complete (Done v) = Some v"
| "complete (Digits neg n) = Some (JNum (if neg then - int n else int n))"
| "complete _ = None"

text \<open>Reading the text of \<open>v\<close> where a value may start yields \<open>v\<close>, whatever is still open.\<close>

definition reads :: "json \<Rightarrow> bool" where
  "reads v = (\<forall>K. \<exists>m. run (Val, K) (JSON_stringify v) = Some (m, K) \<and> complete m = Some v)"

text \<open>No object of the value names a property twice (every JavaScript object is like this).\<close>

fun wf_json :: "json \<Rightarrow> bool" where
  "wf_json (JArr xs) = (\<forall>x\<in>set xs. wf_json x)"
| "wf_json (JObj ms) = (distinct (map fst ms) \<and> (\<forall>m\<in>set ms. wf_json (snd m)))"
| "wf_json _ = True"

text \<open>The same of what the automaton holds while it reads.\<close>

fun wf_frame :: "frame \<Rightarrow> bool" where
  "wf_frame (Arr xs) = wf_json (JArr xs)"
| "wf_frame (Obj ms) = wf_json (JObj ms)"
| "wf_frame (Member ms k) = wf_json (JObj ms)"

fun wf_mode :: "mode \<Rightarrow> bool" where
  "wf_mode (Done v) = wf_json v"
| "wf_mode (Lit l v) = wf_json v"
| "wf_mode _ = True"

definition wf_state :: "pstate \<Rightarrow> bool" where
  "wf_state st = (wf_mode (fst st) \<and> list_all wf_frame (snd st))"

text \<open>Reading a property: \<open>None\<close> is \<open>undefined\<close>. Only an object has properties of its own.\<close>

fun get_prop :: "json \<Rightarrow> string \<Rightarrow> json option" where
  "get_prop (JObj ms) k = map_of ms k"
| "get_prop _ k = None"

text \<open>\<open>Object.keys\<close>: the names of the properties, in order.\<close>

fun keys_of :: "json \<Rightarrow> string list" where
  "keys_of (JObj ms) = map fst ms"
| "keys_of _ = []"

fun set_prop :: "json \<Rightarrow> string \<Rightarrow> json \<Rightarrow> json" where
  "set_prop (JObj ms) k v = JObj (put_member ms k v)"
| "set_prop x k v = x"



section \<open>The link store\<close>

text \<open>
  \<open>localStorage\<close> maps keys to strings; \<open>getItem\<close> of a missing key is \<open>null\<close>, here \<open>None\<close>.
  The storage is taken to be available and unbounded (\<open>getItem\<close> and \<open>setItem\<close> do not throw).
\<close>

type_synonym storage = "string \<rightharpoonup> string"

definition STORAGE_KEY :: string where
  "STORAGE_KEY = ''urlshort:v3''"

text \<open>
  \<open>loadLinks\<close>: \<open>JSON.parse(localStorage.getItem(STORAGE_KEY) || '[]')\<close>, and \<open>[]\<close> when
  that throws. The result is whatever value the text denotes.
\<close>

definition loadLinks :: "storage \<Rightarrow> json" where
  "loadLinks ls =
     (let text = (case ls STORAGE_KEY of
                    None \<Rightarrow> ''[]''
                  | Some s \<Rightarrow> if s = [] then ''[]'' else s)
      in case JSON_parse text of None \<Rightarrow> JArr [] | Some v \<Rightarrow> v)"

definition saveLinks :: "json \<Rightarrow> storage \<Rightarrow> storage" where
  "saveLinks links ls = ls(STORAGE_KEY \<mapsto> JSON_stringify links)"

text \<open>
  The records of the data model, with the property order in which \<open>submitToBackend\<close> and
  \<open>handleRedirect\<close> build them.
\<close>

record VisitRecord =
  ts :: int
  ref :: string
  os :: string
  lang :: string
  tz :: string
  screen :: string

record LinkRecord =
  code :: string
  longUrl :: string
  createdAt :: int
  expiryTs :: "int option"
  visits :: "VisitRecord list"

definition json_of_visit :: "VisitRecord \<Rightarrow> json" where
  "json_of_visit v =
     JObj [(''ts'', JNum (ts v)), (''ref'', JStr (ref v)), (''os'', JStr (os v)),
           (''lang'', JStr (lang v)), (''tz'', JStr (tz v)), (''screen'', JStr (screen v))]"

definition json_of_link :: "LinkRecord \<Rightarrow> json" where
  "json_of_link l =
     JObj [(''code'', JStr (code l)), (''longUrl'', JStr (longUrl l)),
           (''createdAt'', JNum (createdAt l)),
           (''expiryTs'', (case expiryTs l of None \<Rightarrow> JNull | Some e \<Rightarrow> JNum e)),
           (''visits'', JArr (map json_of_visit (visits l)))]"

definition json_of_links :: "LinkRecord list \<Rightarrow> json" where
  "json_of_links ls = JArr (map json_of_link ls)"


section \<open>The redirect resolver\<close>

text \<open>What \<open>handleRedirect\<close> reads from the browser.\<close>

record env =
  location_hash :: string
  date_now :: int
  document_referrer :: string
  userAgent :: string
  navigator_language :: string
  timeZone :: string
  window_screen :: "(int \<times> int) option"

record DeviceMeta =
  meta_os :: string
  meta_lang :: string
  meta_tz :: string
  meta_screen :: string

definition deviceMeta :: "env \<Rightarrow> DeviceMeta" where
  "deviceMeta e =
     (let ua = toLowerCase (userAgent e);
          dim = (\<lambda>n. if n = 0 then ''?'' else show_int n)
      in \<lparr>meta_os =
            (if contains ''windows'' ua then ''Windows''
             else if contains ''mac'' ua then ''macOS''
             else if contains ''android'' ua then ''Android''
             else if contains ''iphone'' ua \<or> contains ''ipad'' ua \<or> contains ''ipod'' ua
               then ''iOS''
             else if contains ''linux'' ua then ''Linux''
             else ''Other''),
          meta_lang = (if navigator_language e = [] then ''en'' else navigator_language e),
          meta_tz = (if timeZone e = [] then ''UTC'' else timeZone e),
          meta_screen =
            (case window_screen e of
               None \<Rightarrow> ''?x?''
             | Some (w, h) \<Rightarrow> dim w @ ''x'' @ dim h)\<rparr>)"

text \<open>\<open>{ ts: now(), ref: document.referrer || '(direct)', ...deviceMeta() }\<close>\<close>

definition new_visit :: "env \<Rightarrow> VisitRecord" where
  "new_visit e =
     (let m = deviceMeta e
      in \<lparr>ts = date_now e,
          ref = (if document_referrer e = [] then ''(direct)'' else document_referrer e),
          os = meta_os m, lang = meta_lang m, tz = meta_tz m, screen = meta_screen m\<rparr>)"

text \<open>\<open>hash.replace(/^#\/?/, '')\<close>\<close>

fun strip_hash :: "string \<Rightarrow> string" where
  "strip_hash (c # d # r) =
     (if c = CHR ''#'' then (if d = CHR ''/'' then r else d # r) else c # d # r)"
| "strip_hash [c] = (if c = CHR ''#'' then [] else [c])"
| "strip_hash [] = []"

text \<open>
  \<open>hash.match(/^r\/(.+)$/)\<close>: the group is the rest after \<open>r/\<close>; it must be non-empty, and
  \<open>.\<close> matches no line terminator.
\<close>

definition line_terminator :: "char \<Rightarrow> bool" where
  "line_terminator c = (c = CHR 0x0A \<or> c = CHR 0x0D)"

fun match_redirect :: "string \<Rightarrow> string option" where
  "match_redirect (c # d # r) =
     (if c = CHR ''r'' \<and> d = CHR ''/'' \<and> r \<noteq> [] \<and> \<not> list_ex line_terminator r
      then Some r else None)"
| "match_redirect _ = None"

datatype js_error = TypeError

text \<open>
  \<open>links.find(l => l.code === code)\<close> on the elements of an array, as the position of the
  element it returns. Reading \<open>.code\<close> of \<open>null\<close> throws.
\<close>

fun find_code :: "string \<Rightarrow> json list \<Rightarrow> js_error + nat option" where
  "find_code c [] = Inr None"
| "find_code c (l # ls) =
     (if l = JNull then Inl TypeError
      else if get_prop l ''code'' = Some (JStr c) then Inr (Some 0)
      else (case find_code c ls of
              Inl e \<Rightarrow> Inl e
            | Inr None \<Rightarrow> Inr None
            | Inr (Some i) \<Rightarrow> Inr (Some (Suc i))))"

text \<open>\<open>window.location.replace(x)\<close>, with the value passed (\<open>None\<close> is \<open>undefined\<close>).\<close>

datatype navigation = Replace "json option"

record outcome =
  thrown :: "js_error option"
  store :: storage
  nav :: "navigation option"

text \<open>
  \<open>handleRedirect\<close>. \<open>link.visits.push(...)\<close> changes the record inside the loaded array,
  which is then saved whole. \<open>find\<close> and \<open>push\<close> exist on arrays only: on any other value
  the call throws, before anything is saved.
\<close>

definition handleRedirect :: "env \<Rightarrow> storage \<Rightarrow> outcome" where
  "handleRedirect e ls =
     (case match_redirect (strip_hash (location_hash e)) of
        None \<Rightarrow> \<lparr>thrown = None, store = ls, nav = None\<rparr>
      | Some c \<Rightarrow>
          (case loadLinks ls of
             JArr links \<Rightarrow>
               (case find_code c links of
                  Inl err \<Rightarrow> \<lparr>thrown = Some err, store = ls, nav = None\<rparr>
                | Inr None \<Rightarrow> \<lparr>thrown = None, store = ls, nav = None\<rparr>
                | Inr (Some i) \<Rightarrow>
                    (let link = links ! i in
                     case get_prop link ''visits'' of
                       Some (JArr vs) \<Rightarrow>
                         (let visit = json_of_visit (new_visit e);
                              link' = set_prop link ''visits'' (JArr (vs @ [visit]));
                              links' = links[i := link']
                          in \<lparr>thrown = None,
                              store = saveLinks (JArr links') ls,
                              nav = Some (Replace (get_prop link' ''longUrl''))\<rparr>)
                     | _ \<Rightarrow> \<lparr>thrown = Some TypeError, store = ls, nav = None\<rparr>))
           | _ \<Rightarrow> \<lparr>thrown = Some TypeError, store = ls, nav = None\<rparr>))"


section \<open>The creation flow\<close>

text \<open>
  Platform functions the creation flow calls, taken as parameters: \<open>URL_protocol u\<close> is
  \<open>new URL(u).protocol\<close>, \<open>None\<close> when the constructor throws; \<open>Number_integer s\<close> is
  \<open>Number(s)\<close> when \<open>Number.isInteger\<close> holds of it, \<open>None\<close> otherwise. \<open>now_at i\<close> is what
  \<open>now()\<close> returns for the \<open>i\<close>-th item of a batch and \<open>random_at i\<close> the bytes that
  \<open>getRandomValues\<close> writes for it.
\<close>

record platform =
  URL_protocol :: "string \<Rightarrow> string option"
  Number_integer :: "string \<Rightarrow> int option"
  now_at :: "nat \<Rightarrow> int"
  random_at :: "nat \<Rightarrow> nat \<Rightarrow> 8 word"

definition isValidUrl :: "platform \<Rightarrow> string \<Rightarrow> bool" where
  "isValidUrl P u =
     (case URL_protocol P u of
        None \<Rightarrow> False
      | Some p \<Rightarrow> p = ''http:'' \<or> p = ''https:'')"

definition is_code_char :: "char \<Rightarrow> bool" where
  "is_code_char c =
     (let n = of_char c :: nat in
      (48 \<le> n \<and> n \<le> 57) \<or> (65 \<le> n \<and> n \<le> 90) \<or> (97 \<le> n \<and> n \<le> 122) \<or>
      c = CHR ''_'' \<or> c = CHR ''-'')"

definition sanitizeCode :: "string \<Rightarrow> string" where
  "sanitizeCode c = trim (filter is_code_char c)"

definition chars :: string where
  "chars = ''0123456789abcdefghijklmnopqrstuvwxyzABCDEFGHIJKLMNOPQRSTUVWXYZ''"

definition randomCode :: "nat \<Rightarrow> (nat \<Rightarrow> 8 word) \<Rightarrow> string" where
  "randomCode len arr = map (\<lambda>j. chars ! (unat (arr j) mod length chars)) [0..<len]"

record row_errors =
  err_longUrl :: "string option"
  err_validityMinutes :: "string option"
  err_preferredCode :: "string option"

record row =
  row_longUrl :: string
  row_validityMinutes :: string
  row_preferredCode :: string
  errors :: row_errors

definition no_errors :: row_errors where
  "no_errors = \<lparr>err_longUrl = None, err_validityMinutes = None, err_preferredCode = None\<rparr>"

definition empty_row :: row where
  "empty_row = \<lparr>row_longUrl = [], row_validityMinutes = [], row_preferredCode = [],
                errors = no_errors\<rparr>"

text \<open>\<open>Object.keys(r.errors).length\<close> is not zero.\<close>

definition has_errors :: "row_errors \<Rightarrow> bool" where
  "has_errors e =
     (err_longUrl e \<noteq> None \<or> err_validityMinutes e \<noteq> None \<or> err_preferredCode e \<noteq> None)"

definition validate :: "platform \<Rightarrow> row \<Rightarrow> string list \<Rightarrow> row_errors" where
  "validate P r existing =
     \<lparr>err_longUrl = (if \<not> isValidUrl P (row_longUrl r) then Some ''Invalid URL'' else None),
      err_validityMinutes =
        (if row_validityMinutes r \<noteq> [] then
           (case Number_integer P (row_validityMinutes r) of
              None \<Rightarrow> Some ''Must be positive integer''
            | Some v \<Rightarrow> if v \<le> 0 then Some ''Must be positive integer'' else None)
         else None),
      err_preferredCode =
        (if row_preferredCode r \<noteq> [] then
           (let sc = sanitizeCode (row_preferredCode r) in
            if sc = [] then Some ''Invalid characters''
            else if toLowerCase sc \<in> set existing then Some ''Code taken''
            else None)
         else None)\<rparr>"

record item =
  item_longUrl :: string
  item_validityMinutes :: "int option"
  item_preferredCode :: "string option"

text \<open>
  \<open>submitToBackend\<close> after its delay: one record per item, and \<open>success\<close> is always
  true. The expiry is computed on integers (the rounding of the platform's floating-point
  numbers is not modelled).
\<close>

definition create :: "platform \<Rightarrow> nat \<Rightarrow> item \<Rightarrow> LinkRecord" where
  "create P i it =
     (let c = (case item_preferredCode it of
                 None \<Rightarrow> randomCode 6 (random_at P i)
               | Some pc \<Rightarrow> if pc = [] then randomCode 6 (random_at P i) else pc);
          created = now_at P i
      in \<lparr>code = c, longUrl = item_longUrl it, createdAt = created,
          expiryTs = (case item_validityMinutes it of
                        None \<Rightarrow> None
                      | Some m \<Rightarrow> if m = 0 then None else Some (created + m * 60000)),
          visits = []\<rparr>)"

definition submitToBackend :: "platform \<Rightarrow> item list \<Rightarrow> json list" where
  "submitToBackend P batch =
     map (\<lambda>(i, it). json_of_link (create P i it)) (zip [0..<length batch] batch)"

text \<open>
  \<open>links.map(l => l.code.toLowerCase())\<close>: it throws on an element that is \<open>null\<close> or whose
  \<open>code\<close> is not a string, and on a value that is not an array.
\<close>

fun lower_codes :: "json list \<Rightarrow> js_error + string list" where
  "lower_codes [] = Inr []"
| "lower_codes (l # ls) =
     (case get_prop l ''code'' of
        Some (JStr c) \<Rightarrow>
          (case lower_codes ls of Inl e \<Rightarrow> Inl e | Inr cs \<Rightarrow> Inr (toLowerCase c # cs))
      | _ \<Rightarrow> Inl TypeError)"

definition existing_codes :: "json \<Rightarrow> js_error + string list" where
  "existing_codes links = (case links of JArr ls \<Rightarrow> lower_codes ls | _ \<Rightarrow> Inl TypeError)"

text \<open>
  The state of \<open>App\<close> that \<open>onSubmit\<close> reads and writes, with the storage that the effect
  \<open>saveLinks(links)\<close> rewrites whenever \<open>links\<close> changes. The flag \<open>creating\<close>, set only
  while the call is pending, is left out.
\<close>

record app =
  links :: json
  rows :: "row list"
  createdBatch :: "json list"
  local_storage :: storage
  alerts :: "string list"
  uncaught :: "js_error option"

definition to_item :: "platform \<Rightarrow> row \<Rightarrow> item" where
  "to_item P r =
     \<lparr>item_longUrl = trim (row_longUrl r),
      item_validityMinutes =
        (if row_validityMinutes r \<noteq> [] then Number_integer P (row_validityMinutes r) else None),
      item_preferredCode =
        (let sc = sanitizeCode (row_preferredCode r) in if sc = [] then None else Some sc)\<rparr>"

definition elements :: "json \<Rightarrow> json list" where
  "elements v = (case v of JArr xs \<Rightarrow> xs | _ \<Rightarrow> [])"

definition onSubmit :: "platform \<Rightarrow> app \<Rightarrow> app" where
  "onSubmit P st =
     (case existing_codes (links st) of
        Inl err \<Rightarrow> st\<lparr>uncaught := Some err\<rparr>
      | Inr existing \<Rightarrow>
          (let validated = map (\<lambda>r. r\<lparr>errors := validate P r existing\<rparr>) (rows st) in
           if list_ex (\<lambda>r. has_errors (errors r)) validated
           then st\<lparr>rows := validated, alerts := alerts st @ [''Fix errors first.'']\<rparr>
           else
             (let created = submitToBackend P (map (to_item P) validated);
                  links' = JArr (created @ elements (links st))
              in st\<lparr>links := links', rows := [empty_row], createdBatch := created,
                    local_storage := saveLinks links' (local_storage st)\<rparr>)))"


section \<open>Statistics\<close>

text \<open>
  \<open>stats\<close>, on the records of the data model. \<open>!l.expiryTs\<close> holds of \<open>null\<close> and of the
  number 0.
\<close>

definition active :: "int \<Rightarrow> LinkRecord \<Rightarrow> bool" where
  "active t l = (case expiryTs l of None \<Rightarrow> True | Some e \<Rightarrow> e = 0 \<or> e > t)"

record statistics =
  total :: nat
  n_active :: nat
  n_expired :: nat
  clicks :: nat

definition stats :: "int \<Rightarrow> LinkRecord list \<Rightarrow> statistics" where
  "stats t ls =
     (let n = length ls; a = length (filter (active t) ls)
      in \<lparr>total = n, n_active = a, n_expired = n - a,
          clicks = foldl (\<lambda>s l. s + length (visits l)) 0 ls\<rparr>)"


section \<open>Reading back what \<open>JSON.stringify\<close> wrote\<close>

declare digits_of.simps [simp del]

lemma run_append:
  "run st (a @ b) = (case run st a of None \<Rightarrow> None | Some st' \<Rightarrow> run st' b)"
  by (induction a arbitrary: st) (auto split: option.splits)

lemma below_16: "d < 16 \<Longrightarrow> d \<in> {0, 1, 2, 3, 4, 5, 6, 7, 8, 9, 10, 11, 12, 13, 14, 15::nat}"
  by simp arith

lemma hex_val_hex_digit: "d < 16 \<Longrightarrow> hex_val (hex_digit d) = Some d"
  using below_16 [of d] by (auto simp: hex_val_def hex_digit_def)

lemma below_10: "d < 10 \<Longrightarrow> d \<in> {0, 1, 2, 3, 4, 5, 6, 7, 8, 9::nat}"
  by simp arith

lemma digit_val_char: "d < 10 \<Longrightarrow> digit_val (digit_char d) = Some d"
  using below_10 [of d] by (auto simp: digit_val_def digit_char_def)

lemma start_value_digit:
  "d < 10 \<Longrightarrow> start_value (digit_char d) K = Some (Digits False d, K)"
  using below_10 [of d] by (auto simp: start_value_def digit_val_def digit_char_def)

lemma digit_char_not_ws: "d < 10 \<Longrightarrow> \<not> is_ws (digit_char d)"
  using below_10 [of d] by (auto simp: is_ws_def digit_char_def)

lemma run_quote_char: "run (Chars key acc, K) (quote_char c) = Some (Chars key (c # acc), K)"
proof -
  let ?n = "of_char c :: nat"
  have hx: "?n < 32 \<Longrightarrow> hex_val (hex_digit (?n div 16)) = Some (?n div 16)"
    by (intro hex_val_hex_digit) simp
  have hy: "hex_val (hex_digit (?n mod 16)) = Some (?n mod 16)"
    by (intro hex_val_hex_digit) simp
  have recompose: "char_of (16 * (?n div 16) + ?n mod 16) = c"
    by simp
  show ?thesis
    using hx hy recompose
    by (auto simp: quote_char_def unescape_def hex_val_def)
qed

lemma run_chars:
  "run (Chars key acc, K) (concat (map quote_char s)) = Some (Chars key (rev s @ acc), K)"
  by (induction s arbitrary: acc) (simp_all add: run_append run_quote_char)

lemma run_quote_from:
  "step (m, K) (CHR 0x22) = Some (Chars key [], K) \<Longrightarrow>
   run (m, K) (quote s) = Some (if key then Colon s else Done (JStr s), K)"
  by (simp add: quote_def run_append run_chars)

lemma run_digits:
  "0 < n \<Longrightarrow> (\<And>d. d < 10 \<Longrightarrow> step (m, K) (digit_char d) = Some (Digits neg d, K)) \<Longrightarrow>
   run (m, K) (digits_of n) = Some (Digits neg n, K)"
proof (induction n rule: digits_of.induct)
  case (1 n)
  show ?case
  proof (cases "n < 10")
    case True
    with 1 show ?thesis by (simp add: digits_of.simps [of n])
  next
    case False
    then have pos: "0 < n div 10" by simp
    have "run (m, K) (digits_of (n div 10)) = Some (Digits neg (n div 10), K)"
      using 1 False pos by simp
    then show ?thesis
      using False pos by (simp add: digits_of.simps [of n] run_append digit_val_char)
  qed
qed


lemma put_member_fresh: "k \<notin> fst ` set ms \<Longrightarrow> put_member ms k v = ms @ [(k, v)]"
  by (induction ms) auto

lemma step_complete:
  "complete m = Some v \<Longrightarrow> c = CHR '','' \<or> c = CHR '']'' \<or> c = CHR ''}'' \<Longrightarrow>
   step (m, K) c = after_value v K c"
  by (cases m) (auto simp: digit_val_def)

lemma finish_complete: "complete m = Some v \<Longrightarrow> finish (m, []) = Some v"
  by (cases m) auto

lemma digits_of_hd: "\<exists>d cs. d < 10 \<and> digits_of n = digit_char d # cs"
proof (induction n rule: digits_of.induct)
  case (1 n)
  show ?case
  proof (cases "n < 10")
    case True
    then show ?thesis by (auto simp: digits_of.simps [of n])
  next
    case False
    with 1 obtain d cs where "d < 10" "digits_of (n div 10) = digit_char d # cs" by auto
    with False show ?thesis by (auto simp: digits_of.simps [of n])
  qed
qed

lemma run_show_int: "\<exists>m. run (Val, K) (show_int i) = Some (m, K) \<and> complete m = Some (JNum i)"
proof -
  have val: "step (Val, K) (digit_char d) = Some (Digits False d, K)" if "d < 10" for d
    using that by (simp add: start_value_digit digit_char_not_ws)
  have minus: "step (Minus, K) (digit_char d) = Some (Digits True d, K)" if "d < 10" for d
    using that by (simp add: digit_val_char)
  consider "i = 0" | "0 < i" | "i < 0" by linarith
  then show ?thesis
  proof cases
    case 1
    then show ?thesis using val [of 0] by (simp add: show_int_def digits_of.simps [of 0])
  next
    case 2
    then have "run (Val, K) (digits_of (nat i)) = Some (Digits False (nat i), K)"
      by (intro run_digits val) auto
    with 2 show ?thesis by (simp add: show_int_def)
  next
    case 3
    then have "run (Minus, K) (digits_of (nat (- i))) = Some (Digits True (nat (- i)), K)"
      by (intro run_digits minus) auto
    with 3 show ?thesis by (simp add: show_int_def start_value_def is_ws_def)
  qed
qed

lemma stringify_start:
  "\<exists>c cs. JSON_stringify v = c # cs \<and> \<not> is_ws c \<and> c \<noteq> CHR '']''"
proof (cases v)
  case (JNum i)
  obtain d cs where d: "d < 10" "digits_of (nat \<bar>i\<bar>) = digit_char d # cs"
    using digits_of_hd by blast
  have "digit_char d \<noteq> CHR '']''"
    using below_10 [OF d(1)] by (auto simp: digit_char_def)
  moreover have "\<not> is_ws (digit_char d)"
    using d(1) by (rule digit_char_not_ws)
  moreover have "\<not> is_ws (CHR ''-'')"
    by (simp add: is_ws_def)
  ultimately show ?thesis
    using d JNum by (cases "i < 0") (auto simp: show_int_def abs_if)
qed (auto simp: is_ws_def quote_def)

lemma run_ArrOpen:
  "run (ArrOpen, K) (JSON_stringify v @ rest) = run (Val, K) (JSON_stringify v @ rest)"
proof -
  obtain c cs where "JSON_stringify v = c # cs" "\<not> is_ws c" "c \<noteq> CHR '']''"
    using stringify_start by blast
  then show ?thesis by simp
qed

lemma run_elems:
  "\<forall>x\<in>set xs. reads x \<Longrightarrow> xs \<noteq> [] \<Longrightarrow>
   run (Val, Arr acc # K) (join '','' (map JSON_stringify xs) @ '']'') =
     Some (Done (JArr (rev acc @ xs)), K)"
proof (induction xs arbitrary: acc)
  case Nil
  then show ?case by simp
next
  case (Cons x xs)
  from Cons.prems obtain m where
    m: "run (Val, Arr acc # K) (JSON_stringify x) = Some (m, Arr acc # K)" "complete m = Some x"
    unfolding reads_def by (meson list.set_intros(1))
  show ?case
  proof (cases xs)
    case Nil
    with m show ?thesis
      by (simp add: run_append step_complete after_value_def is_ws_def)
  next
    case (Cons y ys)
    have "run (Val, Arr (x # acc) # K) (join '','' (map JSON_stringify xs) @ '']'') =
        Some (Done (JArr (rev (x # acc) @ xs)), K)"
      using Cons.IH [of "x # acc"] Cons.prems Cons by simp
    with m Cons show ?thesis
      by (simp add: run_append step_complete after_value_def is_ws_def)
  qed
qed

lemma reads_JArr: "\<forall>x\<in>set xs. reads x \<Longrightarrow> reads (JArr xs)"
proof (cases xs)
  case Nil
  then show ?thesis by (simp add: reads_def start_value_def is_ws_def digit_val_def)
next
  case (Cons x ys)
  assume all: "\<forall>x\<in>set xs. reads x"
  have "run (Val, K) (JSON_stringify (JArr xs)) = Some (Done (JArr xs), K)" for K
  proof -
    have "run (Val, K) (JSON_stringify (JArr xs)) =
        run (ArrOpen, Arr [] # K) (join '','' (map JSON_stringify xs) @ '']'')"
      by (simp add: start_value_def is_ws_def digit_val_def)
    also have "\<dots> = run (Val, Arr [] # K) (join '','' (map JSON_stringify xs) @ '']'')"
    proof (cases ys)
      case Nil
      with Cons show ?thesis using run_ArrOpen [of "Arr [] # K" x "'']''"] by simp
    next
      case (Cons y zs)
      with \<open>xs = x # ys\<close> show ?thesis
        using run_ArrOpen [of "Arr [] # K" x "'','' @ join '','' (map JSON_stringify ys) @ '']''"]
        by simp
    qed
    also have "\<dots> = Some (Done (JArr xs), K)"
      using run_elems [OF all, of "[]" K] Cons by simp
    finally show ?thesis .
  qed
  then show ?thesis by (simp add: reads_def)
qed


lemma run_member:
  assumes "reads v" and "m0 = Key \<or> m0 = ObjOpen"
  shows "\<exists>m. run (m0, Obj acc # K) (quote k @ '':'' @ JSON_stringify v) =
           Some (m, Member acc k # K) \<and> complete m = Some v"
proof -
  have "step (m0, Obj acc # K) (CHR 0x22) = Some (Chars True [], Obj acc # K)"
    using assms(2) by (auto simp: is_ws_def)
  then have "run (m0, Obj acc # K) (quote k) = Some (Colon k, Obj acc # K)"
    using run_quote_from [of m0 "Obj acc # K" True k] by simp
  moreover obtain m where
    "run (Val, Member acc k # K) (JSON_stringify v) = Some (m, Member acc k # K)"
    "complete m = Some v"
    using assms(1) unfolding reads_def by blast
  ultimately show ?thesis
    by (simp add: run_append is_ws_def)
qed

lemma run_members:
  "\<forall>m\<in>set ms. reads (snd m) \<Longrightarrow> ms \<noteq> [] \<Longrightarrow> distinct (map fst (acc @ ms)) \<Longrightarrow>
   m0 = Key \<or> m0 = ObjOpen \<Longrightarrow>
   run (m0, Obj acc # K)
     (join '','' (map (\<lambda>(k, v). quote k @ '':'' @ JSON_stringify v) ms) @ ''}'') =
     Some (Done (JObj (acc @ ms)), K)"
proof (induction ms arbitrary: acc m0)
  case Nil
  then show ?case by simp
next
  case (Cons kv ms)
  obtain k v where kv: "kv = (k, v)" by (cases kv)
  from Cons.prems kv obtain m where
    m: "run (m0, Obj acc # K) (quote k @ '':'' @ JSON_stringify v) = Some (m, Member acc k # K)"
       "complete m = Some v"
    using run_member [of v m0 acc K k] by auto
  have fresh: "put_member acc k v = acc @ [(k, v)]"
    using Cons.prems kv by (intro put_member_fresh) auto
  show ?case
  proof (cases ms)
    case Nil
    with m kv fresh show ?thesis
      using run_append [of "(m0, Obj acc # K)" "quote k @ '':'' @ JSON_stringify v" "''}''"]
      by (simp add: step_complete after_value_def is_ws_def)
  next
    case (Cons kv' ms')
    have "run (Key, Obj (acc @ [(k, v)]) # K)
        (join '','' (map (\<lambda>(k, v). quote k @ '':'' @ JSON_stringify v) ms) @ ''}'') =
        Some (Done (JObj ((acc @ [(k, v)]) @ ms)), K)"
      using Cons.IH [of "acc @ [(k, v)]" Key] Cons.prems Cons kv by simp
    with m kv fresh Cons show ?thesis
      using run_append [of "(m0, Obj acc # K)" "quote k @ '':'' @ JSON_stringify v"
          "'','' @ join '','' (map (\<lambda>(k, v). quote k @ '':'' @ JSON_stringify v) ms) @ ''}''"]
      by (simp add: step_complete after_value_def is_ws_def)
  qed
qed

lemma reads_JObj:
  assumes "\<forall>m\<in>set ms. reads (snd m)" and "distinct (map fst ms)"
  shows "reads (JObj ms)"
proof (cases ms)
  case Nil
  then show ?thesis by (simp add: reads_def start_value_def is_ws_def digit_val_def)
next
  case (Cons kv ms')
  have "run (Val, K) (JSON_stringify (JObj ms)) = Some (Done (JObj ms), K)" for K
  proof -
    have "run (Val, K) (JSON_stringify (JObj ms)) =
        run (ObjOpen, Obj [] # K)
          (join '','' (map (\<lambda>(k, v). quote k @ '':'' @ JSON_stringify v) ms) @ ''}'')"
      by (simp add: start_value_def is_ws_def digit_val_def)
    also have "\<dots> = Some (Done (JObj ms), K)"
      using run_members [OF assms(1), of "[]" ObjOpen K] assms(2) Cons by simp
    finally show ?thesis .
  qed
  then show ?thesis by (simp add: reads_def)
qed

lemma reads_wf: "wf_json v \<Longrightarrow> reads v"
proof (induction v)
  case JNull
  show ?case by (simp add: reads_def start_value_def is_ws_def)
next
  case (JBool b)
  show ?case by (cases b) (simp_all add: reads_def start_value_def is_ws_def)
next
  case (JNum i)
  show ?case using run_show_int by (simp add: reads_def)
next
  case (JStr s)
  show ?case
    using run_quote_from [of Val _ False s]
    by (simp add: reads_def start_value_def is_ws_def)
next
  case (JArr xs)
  then show ?case by (intro reads_JArr) auto
next
  case (JObj ms)
  have "\<forall>m\<in>set ms. reads (snd m)"
  proof
    fix m assume "m \<in> set ms"
    with JObj show "reads (snd m)" by (cases m) auto
  qed
  with JObj.prems show ?case by (intro reads_JObj) auto
qed

lemma parse_stringify: "wf_json v \<Longrightarrow> JSON_parse (JSON_stringify v) = Some v"
proof -
  assume "wf_json v"
  then obtain m where "run (Val, []) (JSON_stringify v) = Some (m, [])" "complete m = Some v"
    using reads_wf unfolding reads_def by blast
  then show ?thesis by (simp add: JSON_parse_def finish_complete)
qed

section \<open>What \<open>JSON.parse\<close> yields names no property twice\<close>

lemma put_member_keys: "fst ` set (put_member ms k v) = insert k (fst ` set ms)"
  by (induction ms k v rule: put_member.induct) auto

lemma put_member_distinct: "distinct (map fst ms) \<Longrightarrow> distinct (map fst (put_member ms k v))"
  by (induction ms k v rule: put_member.induct) (auto simp: put_member_keys)

lemma put_member_set: "set (put_member ms k v) \<subseteq> insert (k, v) (set ms)"
  by (induction ms k v rule: put_member.induct) auto

lemma put_member_wf:
  "wf_json (JObj ms) \<Longrightarrow> wf_json v \<Longrightarrow> wf_json (JObj (put_member ms k v))"
  using put_member_set [of ms k v] by (auto simp: put_member_distinct)

lemma start_value_wf:
  "list_all wf_frame K \<Longrightarrow> start_value c K = Some st \<Longrightarrow> wf_state st"
  by (auto simp: start_value_def wf_state_def split: if_splits option.splits)

lemma after_value_wf:
  "wf_json v \<Longrightarrow> list_all wf_frame K \<Longrightarrow> after_value v K c = Some st \<Longrightarrow> wf_state st"
  using put_member_wf
  by (auto simp: after_value_def wf_state_def split: if_splits list.splits frame.splits)

lemma step_wf: "wf_state st \<Longrightarrow> step st c = Some st' \<Longrightarrow> wf_state st'"
proof (cases st)
  case (Pair m K)
  assume wf: "wf_state st" and st: "step st c = Some st'"
  from wf Pair have K: "list_all wf_frame K" and m: "wf_mode m"
    by (simp_all add: wf_state_def)
  show ?thesis
  proof (cases m)
    case Val
    with st Pair K show ?thesis by (auto split: if_splits dest: start_value_wf simp: wf_state_def)
  next
    case ArrOpen
    with st Pair K show ?thesis
      by (auto split: if_splits list.splits frame.splits dest: start_value_wf simp: wf_state_def)
  next
    case (Done v)
    with st Pair K m show ?thesis by (auto dest: after_value_wf)
  next
    case (Digits neg n)
    have "after_value (JNum i) K c = Some st' \<Longrightarrow> wf_state st'" for i
      using after_value_wf [of "JNum i" K c st'] K by simp
    with Digits st Pair K show ?thesis
      by (auto split: if_splits option.splits simp: wf_state_def)
  next
    case (Lit l v)
    with st Pair K m show ?thesis
      by (auto split: if_splits list.splits simp: wf_state_def)
  qed (use st Pair K in \<open>auto split: if_splits list.splits frame.splits option.splits
        simp: wf_state_def\<close>)
qed

lemma run_wf: "wf_state st \<Longrightarrow> run st s = Some st' \<Longrightarrow> wf_state st'"
  by (induction s arbitrary: st) (auto split: option.splits dest: step_wf)

lemma finish_wf: "wf_state st \<Longrightarrow> finish st = Some v \<Longrightarrow> wf_json v"
  by (cases st rule: finish.cases) (auto simp: wf_state_def)

lemma parse_wf: "JSON_parse s = Some v \<Longrightarrow> wf_json v"
proof -
  assume "JSON_parse s = Some v"
  then obtain st where "run (Val, []) s = Some st" "finish st = Some v"
    by (auto simp: JSON_parse_def split: option.splits)
  moreover have "wf_state (Val, [])" by (simp add: wf_state_def)
  ultimately show ?thesis using run_wf finish_wf by blast
qed

lemma loadLinks_wf: "wf_json (loadLinks ls)"
  by (auto simp: loadLinks_def Let_def dest: parse_wf split: option.splits)


section \<open>The link store: loading and saving\<close>

lemma stringify_not_empty: "JSON_stringify v \<noteq> []"
  using stringify_start [of v] by auto

lemma load_save: "wf_json v \<Longrightarrow> loadLinks (saveLinks v ls) = v"
  by (simp add: loadLinks_def saveLinks_def stringify_not_empty parse_stringify)

lemma wf_json_of_visit: "wf_json (json_of_visit v)"
  by (simp add: json_of_visit_def)

lemma wf_json_of_link: "wf_json (json_of_link l)"
  by (simp add: json_of_link_def wf_json_of_visit split: option.split)

lemma wf_json_of_links: "wf_json (json_of_links rs)"
  by (simp add: json_of_links_def wf_json_of_link)

lemma json_of_visit_inj: "json_of_visit v = json_of_visit w \<Longrightarrow> v = w"
  by (cases v, cases w) (simp add: json_of_visit_def)

lemma json_of_visits_inj: "map json_of_visit vs = map json_of_visit ws \<Longrightarrow> vs = ws"
  using json_of_visit_inj by (metis inj_onI inj_map_eq_map)

lemma json_of_link_inj: "json_of_link l = json_of_link m \<Longrightarrow> l = m"
  by (cases l, cases m)
     (auto simp: json_of_link_def dest: json_of_visits_inj split: option.splits)

lemma json_of_links_inj: "inj json_of_links"
proof (rule injI)
  fix rs rs' assume "json_of_links rs = json_of_links rs'"
  then have "map json_of_link rs = map json_of_link rs'" by (simp add: json_of_links_def)
  then show "rs = rs'" using json_of_link_inj by (metis inj_onI inj_map_eq_map)
qed

text \<open>
  Claim C9. For every collection of well-formed LinkRecords, saving it and loading it again
  yields the collection itself, field for field: the value loaded is the encoding of the
  records saved, the encoding determines the records, and saving what was loaded writes the
  same storage again.
\<close>

theorem links_round_trip:
  "loadLinks (saveLinks (json_of_links rs) ls) = json_of_links rs \<and>
   inj json_of_links \<and>
   saveLinks (loadLinks (saveLinks (json_of_links rs) ls)) (saveLinks (json_of_links rs) ls) =
     saveLinks (json_of_links rs) ls"
proof -
  have again: "loadLinks (saveLinks (json_of_links rs) ls) = json_of_links rs"
    by (simp add: load_save wf_json_of_links)
  have "saveLinks (json_of_links rs) (saveLinks (json_of_links rs) ls) =
      saveLinks (json_of_links rs) ls"
    by (simp add: saveLinks_def)
  with again show ?thesis
    by (simp add: json_of_links_inj)
qed

lemma parse_null: "JSON_parse ''null'' = Some JNull"
  by (simp add: JSON_parse_def start_value_def is_ws_def)

lemma loadLinks_missing_or_empty:
  "ls STORAGE_KEY = None \<or> ls STORAGE_KEY = Some [] \<Longrightarrow> loadLinks ls = JArr []"
proof -
  have "JSON_parse ''[]'' = Some (JArr [])"
    by (simp add: JSON_parse_def start_value_def is_ws_def digit_val_def)
  then show "ls STORAGE_KEY = None \<or> ls STORAGE_KEY = Some [] \<Longrightarrow> loadLinks ls = JArr []"
    by (auto simp: loadLinks_def)
qed

text \<open>
  Claim C2 fails on the code. \<open>loadLinks\<close> falls back to the empty sequence when the
  persisted value is missing or empty and when \<open>JSON.parse\<close> throws, but not when the text is
  valid JSON that is not an array. With the persisted string \<open>null\<close> it returns the value
  \<open>null\<close>, not an empty sequence, and its callers, which use the result as an array, throw:
  \<open>links.map\<close> in \<open>onSubmit\<close> and \<open>links.find\<close> in \<open>handleRedirect\<close>.
\<close>

theorem loadLinks_null_is_not_a_sequence:
  "JSON_parse ''null'' = Some JNull \<and>
   loadLinks (Map.empty(STORAGE_KEY \<mapsto> ''null'')) = JNull \<and>
   loadLinks (Map.empty(STORAGE_KEY \<mapsto> ''null'')) \<noteq> JArr [] \<and>
   existing_codes (loadLinks (Map.empty(STORAGE_KEY \<mapsto> ''null''))) = Inl TypeError \<and>
   thrown (handleRedirect
     \<lparr>location_hash = ''#/r/abc123'', date_now = 1700000100000, document_referrer = [],
      userAgent = ''Mozilla/5.0 (X11; Linux x86_64)'', navigator_language = ''en-US'',
      timeZone = ''UTC'', window_screen = Some (1920, 1080)\<rparr>
     (Map.empty(STORAGE_KEY \<mapsto> ''null''))) = Some TypeError"
proof -
  have l: "loadLinks (Map.empty(STORAGE_KEY \<mapsto> ''null'')) = JNull"
    by (simp add: loadLinks_def parse_null)
  show ?thesis
    by (simp add: l parse_null existing_codes_def handleRedirect_def line_terminator_def)
qed


section \<open>The redirect resolver: lookup, logging, navigation\<close>

lemma find_code_Some:
  "find_code c xs = Inr (Some i) \<Longrightarrow>
   i < length xs \<and> get_prop (xs ! i) ''code'' = Some (JStr c) \<and>
   (\<forall>j<i. get_prop (xs ! j) ''code'' \<noteq> Some (JStr c))"
proof (induction xs arbitrary: i)
  case Nil
  then show ?case by simp
next
  case (Cons l ls)
  show ?case
  proof (cases "get_prop l ''code'' = Some (JStr c)")
    case True
    with Cons.prems show ?thesis by (auto split: if_splits)
  next
    case False
    with Cons.prems obtain i' where i': "i = Suc i'" "find_code c ls = Inr (Some i')"
      by (auto split: if_splits sum.splits option.splits)
    with Cons.IH [of i'] False show ?thesis
      by (auto simp: All_less_Suc2)
  qed
qed

lemma find_code_no_match:
  "\<forall>l\<in>set xs. get_prop l ''code'' \<noteq> Some (JStr c) \<Longrightarrow> find_code c xs \<noteq> Inr (Some i)"
  using find_code_Some [of c xs i] nth_mem [of i xs] by auto

lemma map_of_put_member:
  "map_of (put_member ms k v) k' = (if k' = k then Some v else map_of ms k')"
  by (induction ms k v rule: put_member.induct) auto

lemma get_prop_set_prop:
  "get_prop l k0 = Some x \<Longrightarrow>
   get_prop (set_prop l k v) k' = (if k' = k then Some v else get_prop l k')"
  by (cases l) (auto simp: map_of_put_member)

lemma put_member_names: "k \<in> fst ` set ms \<Longrightarrow> map fst (put_member ms k v) = map fst ms"
  by (induction ms k v rule: put_member.induct) auto

lemma handleRedirect_found:
  assumes "match_redirect (strip_hash (location_hash e)) = Some c"
    and "loadLinks ls = JArr xs"
    and "find_code c xs = Inr (Some i)"
    and "get_prop (xs ! i) ''visits'' = Some (JArr vs)"
  shows "handleRedirect e ls =
    \<lparr>thrown = None,
     store = saveLinks (JArr (xs[i := set_prop (xs ! i) ''visits''
                (JArr (vs @ [json_of_visit (new_visit e)]))])) ls,
     nav = Some (Replace (get_prop (xs ! i) ''longUrl''))\<rparr>"
  using assms get_prop_set_prop [OF assms(4)] by (simp add: handleRedirect_def Let_def)

lemma get_prop_link:
  "get_prop (json_of_link r) ''code'' = Some (JStr (code r))"
  "get_prop (json_of_link r) ''longUrl'' = Some (JStr (longUrl r))"
  "get_prop (json_of_link r) ''visits'' = Some (JArr (map json_of_visit (visits r)))"
  by (simp_all add: json_of_link_def)

lemma json_of_link_not_null: "json_of_link r \<noteq> JNull"
  by (simp add: json_of_link_def)

lemma set_visits_link:
  "set_prop (json_of_link r) ''visits'' (JArr (map json_of_visit vs)) =
   json_of_link (r\<lparr>visits := vs\<rparr>)"
  by (simp add: json_of_link_def)

lemma find_code_links:
  "find_code c (map json_of_link rs) = Inr (Some i) \<longleftrightarrow>
     i < length rs \<and> code (rs ! i) = c \<and> (\<forall>j<i. code (rs ! j) \<noteq> c)"
proof (induction rs arbitrary: i)
  case Nil
  show ?case by simp
next
  case (Cons r rs)
  show ?case
  proof (cases "code r = c")
    case True
    then show ?thesis
      by (cases i) (auto simp: get_prop_link json_of_link_not_null)
  next
    case False
    show ?thesis
    proof (cases i)
      case 0
      with False show ?thesis
        by (auto simp: get_prop_link json_of_link_not_null split: sum.splits option.splits)
    next
      case (Suc i')
      with False Cons.IH [of i'] show ?thesis
        by (auto simp: get_prop_link json_of_link_not_null All_less_Suc2
            split: sum.splits option.splits)
    qed
  qed
qed

lemma find_code_links_None:
  "find_code c (map json_of_link rs) = Inr None \<longleftrightarrow> (\<forall>r\<in>set rs. code r \<noteq> c)"
  by (induction rs)
     (auto simp: get_prop_link json_of_link_not_null split: sum.splits option.splits)

lemma find_code_links_total: "find_code c (map json_of_link rs) \<noteq> Inl err"
  by (induction rs)
     (auto simp: get_prop_link json_of_link_not_null split: sum.splits option.splits)

lemma match_fragment:
  "c \<noteq> [] \<Longrightarrow> \<not> list_ex line_terminator c \<Longrightarrow>
   match_redirect (strip_hash (''#/r/'' @ c)) = Some c"
  by simp


lemma wf_get_prop: "wf_json l \<Longrightarrow> get_prop l k = Some v \<Longrightarrow> wf_json v"
  by (cases l) (auto dest: map_of_SomeD)

lemma wf_set_prop: "wf_json l \<Longrightarrow> wf_json v \<Longrightarrow> wf_json (set_prop l k v)"
  by (cases l) (simp_all only: set_prop.simps put_member_wf)

lemma keys_set_prop: "get_prop l k = Some x \<Longrightarrow> keys_of (set_prop l k v) = keys_of l"
proof (cases l)
  case (JObj ms)
  assume "get_prop l k = Some x"
  with JObj have "(k, x) \<in> set ms" by (auto dest: map_of_SomeD)
  then have "k \<in> fst ` set ms" by force
  with JObj show ?thesis by (simp add: put_member_names)
qed auto

lemma wf_visited:
  assumes "wf_json (JArr xs)" and "i < length xs" and "get_prop (xs ! i) ''visits'' = Some (JArr vs)"
  shows "wf_json (JArr (xs[i := set_prop (xs ! i) ''visits'' (JArr (vs @ [json_of_visit w]))]))"
proof -
  have l: "wf_json (xs ! i)" using assms(1,2) by simp
  then have "wf_json (JArr vs)" using assms(3) by (rule wf_get_prop)
  then have "wf_json (JArr (vs @ [json_of_visit w]))" by (simp add: wf_json_of_visit)
  with l have "wf_json (set_prop (xs ! i) ''visits'' (JArr (vs @ [json_of_visit w])))"
    by (rule wf_set_prop)
  with assms(1) show ?thesis
    by (auto dest: set_update_subset_insert [THEN subsetD])
qed

text \<open>
  Claim C1. The fragment is \<open>#/r/<code>\<close> and the store holds well-formed records, one of
  which has that code. Then \<open>handleRedirect\<close> appends exactly one VisitRecord at the end of
  the visits of the first record with that code, every prior visit staying in place; it saves
  the whole collection, which loads again as saved; and it navigates to that record's
  \<open>longUrl\<close> with \<open>location.replace\<close>.
\<close>

theorem redirect_logs_visit_and_navigates:
  assumes "location_hash e = ''#/r/'' @ c" and "c \<noteq> []" and "\<not> list_ex line_terminator c"
    and "loadLinks ls = json_of_links rs"
    and "c \<in> code ` set rs"
  shows "\<exists>i rs'. i < length rs \<and> code (rs ! i) = c \<and> (\<forall>j<i. code (rs ! j) \<noteq> c) \<and>
      rs' = rs[i := (rs ! i)\<lparr>visits := visits (rs ! i) @ [new_visit e]\<rparr>] \<and>
      handleRedirect e ls =
        \<lparr>thrown = None, store = saveLinks (json_of_links rs') ls,
         nav = Some (Replace (Some (JStr (longUrl (rs ! i)))))\<rparr> \<and>
      loadLinks (saveLinks (json_of_links rs') ls) = json_of_links rs'"
proof -
  have "find_code c (map json_of_link rs) \<noteq> Inr None"
    using assms(5) by (auto simp: find_code_links_None)
  then obtain i where i: "find_code c (map json_of_link rs) = Inr (Some i)"
    using find_code_links_total [of c rs]
    by (cases "find_code c (map json_of_link rs)") (auto simp: js_error.exhaust)
  then have first: "i < length rs" "code (rs ! i) = c" "\<forall>j<i. code (rs ! j) \<noteq> c"
    by (simp_all add: find_code_links)
  define rs' where "rs' = rs[i := (rs ! i)\<lparr>visits := visits (rs ! i) @ [new_visit e]\<rparr>]"
  have m: "match_redirect (strip_hash (location_hash e)) = Some c"
    using assms(1-3) by simp
  have l: "loadLinks ls = JArr (map json_of_link rs)"
    using assms(4) by (simp add: json_of_links_def)
  have v: "get_prop (map json_of_link rs ! i) ''visits'' =
      Some (JArr (map json_of_visit (visits (rs ! i))))"
    using first(1) by (simp add: get_prop_link)
  have "(map json_of_link rs)[i := set_prop (map json_of_link rs ! i) ''visits''
        (JArr (map json_of_visit (visits (rs ! i)) @ [json_of_visit (new_visit e)]))] =
      map json_of_link rs'"
    using first(1) set_visits_link [of "rs ! i" "visits (rs ! i) @ [new_visit e]"]
    by (simp add: rs'_def map_update)
  with handleRedirect_found [OF m l i v] first(1)
  have "handleRedirect e ls =
      \<lparr>thrown = None, store = saveLinks (json_of_links rs') ls,
       nav = Some (Replace (Some (JStr (longUrl (rs ! i)))))\<rparr>"
    by (simp add: json_of_links_def get_prop_link)
  moreover have "loadLinks (saveLinks (json_of_links rs') ls) = json_of_links rs'"
    by (simp add: load_save wf_json_of_links)
  ultimately show ?thesis
    using first rs'_def by blast
qed

text \<open>
  Claim C1 at a store holding the record \<open>abc123\<close> and the fragment \<open>#/r/abc123\<close>.
\<close>

theorem redirect_logs_visit_and_navigates_witness:
  "loadLinks (saveLinks (json_of_links
      [\<lparr>code = ''abc123'', longUrl = ''https://example.com/page'', createdAt = 1700000000000,
        expiryTs = None, visits = []\<rparr>]) Map.empty) =
     json_of_links
      [\<lparr>code = ''abc123'', longUrl = ''https://example.com/page'', createdAt = 1700000000000,
        expiryTs = None, visits = []\<rparr>] \<and>
   (\<exists>v. handleRedirect
      \<lparr>location_hash = ''#/r/abc123'', date_now = 1700000100000, document_referrer = [],
       userAgent = ''Mozilla/5.0 (Macintosh; Intel Mac OS X 10_15_7)'',
       navigator_language = ''en-US'', timeZone = ''America/New_York'',
       window_screen = Some (1920, 1080)\<rparr>
      (saveLinks (json_of_links
        [\<lparr>code = ''abc123'', longUrl = ''https://example.com/page'', createdAt = 1700000000000,
          expiryTs = None, visits = []\<rparr>]) Map.empty) =
     \<lparr>thrown = None,
      store = saveLinks (json_of_links
        [\<lparr>code = ''abc123'', longUrl = ''https://example.com/page'', createdAt = 1700000000000,
          expiryTs = None, visits = [v]\<rparr>])
        (saveLinks (json_of_links
          [\<lparr>code = ''abc123'', longUrl = ''https://example.com/page'',
            createdAt = 1700000000000, expiryTs = None, visits = []\<rparr>]) Map.empty),
      nav = Some (Replace (Some (JStr ''https://example.com/page'')))\<rparr> \<and>
     ts v = 1700000100000 \<and> ref v = ''(direct)'')"
proof -
  let ?r = "\<lparr>code = ''abc123'', longUrl = ''https://example.com/page'',
    createdAt = 1700000000000, expiryTs = None, visits = []\<rparr>"
  let ?e = "\<lparr>location_hash = ''#/r/abc123'', date_now = 1700000100000, document_referrer = [],
    userAgent = ''Mozilla/5.0 (Macintosh; Intel Mac OS X 10_15_7)'',
    navigator_language = ''en-US'', timeZone = ''America/New_York'',
    window_screen = Some (1920, 1080)\<rparr>"
  let ?ls = "saveLinks (json_of_links [?r]) Map.empty"
  have l: "loadLinks ?ls = json_of_links [?r]"
    by (simp add: load_save wf_json_of_links)
  have nl: "\<not> list_ex line_terminator ''abc123''"
    by (simp add: line_terminator_def)
  obtain i rs' where
    "i < length [?r]"
    "rs' = [?r][i := ([?r] ! i)\<lparr>visits := visits ([?r] ! i) @ [new_visit ?e]\<rparr>]"
    "handleRedirect ?e ?ls =
      \<lparr>thrown = None, store = saveLinks (json_of_links rs') ?ls,
       nav = Some (Replace (Some (JStr (longUrl ([?r] ! i)))))\<rparr>"
    using redirect_logs_visit_and_navigates [of ?e "''abc123''" ?ls "[?r]", OF _ _ nl l]
    by auto
  then have "handleRedirect ?e ?ls =
      \<lparr>thrown = None,
       store = saveLinks (json_of_links [?r\<lparr>visits := [new_visit ?e]\<rparr>]) ?ls,
       nav = Some (Replace (Some (JStr ''https://example.com/page'')))\<rparr>"
    by simp
  moreover have "ts (new_visit ?e) = 1700000100000 \<and> ref (new_visit ?e) = ''(direct)''"
    by (simp add: new_visit_def Let_def)
  ultimately show ?thesis
    using l by auto
qed

lemma handleRedirect_no_match:
  "match_redirect (strip_hash (location_hash e)) = None \<Longrightarrow>
   handleRedirect e ls = \<lparr>thrown = None, store = ls, nav = None\<rparr>"
  by (simp add: handleRedirect_def)

lemma handleRedirect_not_found:
  assumes "match_redirect (strip_hash (location_hash e)) = Some c"
    and "\<forall>l\<in>set (elements (loadLinks ls)). get_prop l ''code'' \<noteq> Some (JStr c)"
  shows "store (handleRedirect e ls) = ls \<and> nav (handleRedirect e ls) = None"
proof (cases "loadLinks ls")
  case (JArr xs)
  with assms(2) have "find_code c xs \<noteq> Inr (Some i)" for i
    by (intro find_code_no_match) (simp add: elements_def)
  with assms(1) JArr show ?thesis
    by (auto simp: handleRedirect_def split: sum.splits option.splits)
qed (use assms(1) in \<open>simp_all add: handleRedirect_def\<close>)

lemma handleRedirect_absent:
  assumes "match_redirect (strip_hash (location_hash e)) = Some c"
    and "loadLinks ls = json_of_links rs" and "c \<notin> code ` set rs"
  shows "handleRedirect e ls = \<lparr>thrown = None, store = ls, nav = None\<rparr>"
proof -
  have "find_code c (map json_of_link rs) = Inr None"
    using assms(3) by (auto simp: find_code_links_None)
  with assms(1,2) show ?thesis
    by (simp add: handleRedirect_def json_of_links_def)
qed

text \<open>
  Claim C4. When the fragment, after stripping a leading \<open>#\<close> and an optional \<open>/\<close>, does
  not match \<open>r/<code>\<close>, \<open>handleRedirect\<close> does nothing. When it matches and no element
  of the loaded store has that code, nothing is saved and nothing is navigated to; on a store
  of well-formed records this is a silent return.
\<close>

theorem redirect_no_action:
  "(match_redirect (strip_hash (location_hash e)) = None \<longrightarrow>
      handleRedirect e ls = \<lparr>thrown = None, store = ls, nav = None\<rparr>) \<and>
   (match_redirect (strip_hash (location_hash e)) = Some c \<longrightarrow>
      (\<forall>l\<in>set (elements (loadLinks ls)). get_prop l ''code'' \<noteq> Some (JStr c)) \<longrightarrow>
      store (handleRedirect e ls) = ls \<and> nav (handleRedirect e ls) = None) \<and>
   (match_redirect (strip_hash (location_hash e)) = Some c \<longrightarrow>
      loadLinks ls = json_of_links rs \<longrightarrow> c \<notin> code ` set rs \<longrightarrow>
      handleRedirect e ls = \<lparr>thrown = None, store = ls, nav = None\<rparr>)"
  using handleRedirect_no_match handleRedirect_not_found handleRedirect_absent by blast

text \<open>
  Claim C4 at the fragments \<open>#/settings\<close> and \<open>#/r/doesnotexist\<close>, on a store that holds
  the record \<open>abc123\<close>.
\<close>

theorem redirect_no_action_witness:
  "match_redirect (strip_hash ''#/settings'') = None \<and>
   handleRedirect
     \<lparr>location_hash = ''#/settings'', date_now = 1700000100000, document_referrer = [],
      userAgent = ''Mozilla/5.0 (X11; Linux x86_64)'', navigator_language = ''en-US'',
      timeZone = ''UTC'', window_screen = Some (1920, 1080)\<rparr>
     (saveLinks (json_of_links
       [\<lparr>code = ''abc123'', longUrl = ''https://example.com/page'', createdAt = 1700000000000,
         expiryTs = None, visits = []\<rparr>]) Map.empty) =
     \<lparr>thrown = None,
      store = saveLinks (json_of_links
       [\<lparr>code = ''abc123'', longUrl = ''https://example.com/page'', createdAt = 1700000000000,
         expiryTs = None, visits = []\<rparr>]) Map.empty,
      nav = None\<rparr> \<and>
   match_redirect (strip_hash ''#/r/doesnotexist'') = Some ''doesnotexist'' \<and>
   ''doesnotexist'' \<notin> code ` set
       [\<lparr>code = ''abc123'', longUrl = ''https://example.com/page'', createdAt = 1700000000000,
         expiryTs = None, visits = []\<rparr>] \<and>
   handleRedirect
     \<lparr>location_hash = ''#/r/doesnotexist'', date_now = 1700000100000, document_referrer = [],
      userAgent = ''Mozilla/5.0 (X11; Linux x86_64)'', navigator_language = ''en-US'',
      timeZone = ''UTC'', window_screen = Some (1920, 1080)\<rparr>
     (saveLinks (json_of_links
       [\<lparr>code = ''abc123'', longUrl = ''https://example.com/page'', createdAt = 1700000000000,
         expiryTs = None, visits = []\<rparr>]) Map.empty) =
     \<lparr>thrown = None,
      store = saveLinks (json_of_links
       [\<lparr>code = ''abc123'', longUrl = ''https://example.com/page'', createdAt = 1700000000000,
         expiryTs = None, visits = []\<rparr>]) Map.empty,
      nav = None\<rparr>"
proof -
  let ?r = "\<lparr>code = ''abc123'', longUrl = ''https://example.com/page'',
    createdAt = 1700000000000, expiryTs = None, visits = []\<rparr>"
  let ?ls = "saveLinks (json_of_links [?r]) Map.empty"
  let ?e = "\<lambda>h. \<lparr>location_hash = h, date_now = 1700000100000, document_referrer = [],
      userAgent = ''Mozilla/5.0 (X11; Linux x86_64)'', navigator_language = ''en-US'',
      timeZone = ''UTC'', window_screen = Some (1920, 1080)\<rparr>"
  have l: "loadLinks ?ls = json_of_links [?r]"
    by (simp add: load_save wf_json_of_links)
  have m1: "match_redirect (strip_hash ''#/settings'') = None"
    by simp
  have m2: "match_redirect (strip_hash ''#/r/doesnotexist'') = Some ''doesnotexist''"
    by (simp add: line_terminator_def)
  show ?thesis
    using m1 m2 l
      redirect_no_action [of "?e ''#/settings''" ?ls "''x''" "[?r]"]
      redirect_no_action [of "?e ''#/r/doesnotexist''" ?ls "''doesnotexist''" "[?r]"]
    by simp
qed

lemma eq_char_of: "c = char_of (n::nat) \<longleftrightarrow> take_bit 8 n = of_char c"
  using char_of_eq_iff [of n c] by auto

text \<open>
  Claim C5. The lookup of \<open>handleRedirect\<close> on a collection of records never throws; it
  finds nothing exactly when no record's code equals the given string character for
  character, and otherwise returns the first record whose code equals it.
\<close>

theorem lookup_is_exact_match:
  "find_code c (map json_of_link rs) \<noteq> Inl TypeError \<and>
   (find_code c (map json_of_link rs) = Inr None \<longleftrightarrow> (\<forall>r\<in>set rs. code r \<noteq> c)) \<and>
   (find_code c (map json_of_link rs) = Inr (Some i) \<longleftrightarrow>
      i < length rs \<and> code (rs ! i) = c \<and> (\<forall>j<i. code (rs ! j) \<noteq> c))"
  using find_code_links_total [of c rs TypeError] find_code_links_None [of c rs]
    find_code_links [of c rs i]
  by simp

text \<open>
  Claim C5 at a store holding \<open>AbC123\<close>: the code \<open>AbC123\<close> is found; \<open>abc123\<close>, which
  differs in letter case only, is not.
\<close>

theorem lookup_is_exact_match_witness:
  "find_code ''AbC123''
     [json_of_link \<lparr>code = ''AbC123'', longUrl = ''https://example.com/page'',
        createdAt = 1700000000000, expiryTs = None, visits = []\<rparr>] = Inr (Some 0) \<and>
   toLowerCase ''abc123'' = toLowerCase ''AbC123'' \<and>
   find_code ''abc123''
     [json_of_link \<lparr>code = ''AbC123'', longUrl = ''https://example.com/page'',
        createdAt = 1700000000000, expiryTs = None, visits = []\<rparr>] = Inr None"
proof -
  let ?r = "\<lparr>code = ''AbC123'', longUrl = ''https://example.com/page'',
    createdAt = 1700000000000, expiryTs = None, visits = []\<rparr>"
  have "toLowerCase ''abc123'' = toLowerCase ''AbC123''"
    by (simp add: toLowerCase_def lower_char_def eq_char_of)
  then show ?thesis
    using lookup_is_exact_match [of "''AbC123''" "[?r]" 0]
      lookup_is_exact_match [of "''abc123''" "[?r]" 0]
    by simp
qed


text \<open>
  Claim C10. When \<open>handleRedirect\<close> finds the record and logs the visit, the collection it
  saves (and that loads again) has the same length as the loaded one and the same element at
  every other position; the matched record keeps its property names and the value of every
  property but \<open>visits\<close>, which has one visit more at its end; no other key of the storage
  changes.
\<close>

theorem redirect_changes_only_visits:
  assumes "match_redirect (strip_hash (location_hash e)) = Some c"
    and "loadLinks ls = JArr xs"
    and "find_code c xs = Inr (Some i)"
    and "get_prop (xs ! i) ''visits'' = Some (JArr vs)"
    and "xs' = xs[i := set_prop (xs ! i) ''visits'' (JArr (vs @ [json_of_visit (new_visit e)]))]"
  shows "store (handleRedirect e ls) = saveLinks (JArr xs') ls \<and>
    loadLinks (store (handleRedirect e ls)) = JArr xs' \<and>
    length xs' = length xs \<and>
    (\<forall>j. j \<noteq> i \<longrightarrow> xs' ! j = xs ! j) \<and>
    keys_of (xs' ! i) = keys_of (xs ! i) \<and>
    (\<forall>k. k \<noteq> ''visits'' \<longrightarrow> get_prop (xs' ! i) k = get_prop (xs ! i) k) \<and>
    get_prop (xs' ! i) ''visits'' = Some (JArr (vs @ [json_of_visit (new_visit e)])) \<and>
    (\<forall>key. key \<noteq> STORAGE_KEY \<longrightarrow> store (handleRedirect e ls) key = ls key)"
proof -
  have i: "i < length xs"
    using find_code_Some [OF assms(3)] by simp
  have saved: "store (handleRedirect e ls) = saveLinks (JArr xs') ls"
    using handleRedirect_found [OF assms(1-4)] assms(5) by simp
  have "wf_json (JArr xs)"
    using loadLinks_wf [of ls] assms(2) by simp
  then have "wf_json (JArr xs')"
    unfolding assms(5) using i assms(4) by (rule wf_visited)
  then have loaded: "loadLinks (store (handleRedirect e ls)) = JArr xs'"
    by (simp add: saved load_save)
  have at_i: "xs' ! i = set_prop (xs ! i) ''visits'' (JArr (vs @ [json_of_visit (new_visit e)]))"
    using i by (simp add: assms(5))
  have others: "\<forall>j. j \<noteq> i \<longrightarrow> xs' ! j = xs ! j"
    by (simp add: assms(5))
  have names: "keys_of (xs' ! i) = keys_of (xs ! i)"
    using keys_set_prop [OF assms(4)] by (simp add: at_i)
  have props: "\<forall>k. k \<noteq> ''visits'' \<longrightarrow> get_prop (xs' ! i) k = get_prop (xs ! i) k"
    using get_prop_set_prop [OF assms(4)] by (simp add: at_i)
  have visits: "get_prop (xs' ! i) ''visits'' = Some (JArr (vs @ [json_of_visit (new_visit e)]))"
    using get_prop_set_prop [OF assms(4)] by (simp add: at_i)
  have rest: "\<forall>key. key \<noteq> STORAGE_KEY \<longrightarrow> store (handleRedirect e ls) key = ls key"
    by (simp add: saved saveLinks_def)
  from saved loaded others names props visits rest show ?thesis
    by (simp add: assms(5))
qed

text \<open>
  Claim C10 at a store of two records, the second of which the fragment names.
\<close>

theorem redirect_changes_only_visits_witness:
  "\<exists>xs xs' ls e.
     ls = saveLinks (JArr xs) Map.empty \<and>
     xs = [json_of_link \<lparr>code = ''zzz999'', longUrl = ''https://example.org/'',
             createdAt = 1700000050000, expiryTs = Some 1700003650000, visits = []\<rparr>,
           json_of_link \<lparr>code = ''abc123'', longUrl = ''https://example.com/page'',
             createdAt = 1700000000000, expiryTs = None, visits = []\<rparr>] \<and>
     e = \<lparr>location_hash = ''#/r/abc123'', date_now = 1700000100000, document_referrer = [],
          userAgent = ''Mozilla/5.0 (X11; Linux x86_64)'', navigator_language = ''en-US'',
          timeZone = ''UTC'', window_screen = Some (1920, 1080)\<rparr> \<and>
     match_redirect (strip_hash (location_hash e)) = Some ''abc123'' \<and>
     loadLinks ls = JArr xs \<and>
     find_code ''abc123'' xs = Inr (Some 1) \<and>
     get_prop (xs ! 1) ''visits'' = Some (JArr []) \<and>
     store (handleRedirect e ls) = saveLinks (JArr xs') ls \<and>
     loadLinks (store (handleRedirect e ls)) = JArr xs' \<and>
     length xs' = 2 \<and>
     xs' ! 0 = xs ! 0 \<and>
     keys_of (xs' ! 1) = [''code'', ''longUrl'', ''createdAt'', ''expiryTs'', ''visits''] \<and>
     get_prop (xs' ! 1) ''code'' = Some (JStr ''abc123'') \<and>
     get_prop (xs' ! 1) ''longUrl'' = Some (JStr ''https://example.com/page'') \<and>
     get_prop (xs' ! 1) ''createdAt'' = Some (JNum 1700000000000) \<and>
     get_prop (xs' ! 1) ''expiryTs'' = Some JNull \<and>
     get_prop (xs' ! 1) ''visits'' = Some (JArr [json_of_visit (new_visit e)])"
proof -
  let ?r1 = "\<lparr>code = ''zzz999'', longUrl = ''https://example.org/'',
             createdAt = 1700000050000, expiryTs = Some 1700003650000, visits = []\<rparr>"
  let ?r0 = "\<lparr>code = ''abc123'', longUrl = ''https://example.com/page'',
             createdAt = 1700000000000, expiryTs = None, visits = []\<rparr>"
  let ?xs = "[json_of_link ?r1, json_of_link ?r0]"
  let ?ls = "saveLinks (JArr ?xs) Map.empty"
  let ?e = "\<lparr>location_hash = ''#/r/abc123'', date_now = 1700000100000, document_referrer = [],
          userAgent = ''Mozilla/5.0 (X11; Linux x86_64)'', navigator_language = ''en-US'',
          timeZone = ''UTC'', window_screen = Some (1920, 1080)\<rparr>"
  let ?xs' = "?xs[1 := set_prop (?xs ! 1) ''visits'' (JArr ([] @ [json_of_visit (new_visit ?e)]))]"
  have m: "match_redirect (strip_hash (location_hash ?e)) = Some ''abc123''"
    by (simp add: line_terminator_def)
  have l: "loadLinks ?ls = JArr ?xs"
    using load_save [OF wf_json_of_links [of "[?r1, ?r0]"]] by (simp add: json_of_links_def)
  have f: "find_code ''abc123'' ?xs = Inr (Some 1)"
    by (simp add: get_prop_link json_of_link_not_null)
  have v: "get_prop (?xs ! 1) ''visits'' = Some (JArr [])"
    by (simp add: get_prop_link)
  have k: "keys_of (?xs ! 1) = [''code'', ''longUrl'', ''createdAt'', ''expiryTs'', ''visits'']"
    by (simp add: json_of_link_def)
  have p: "get_prop (?xs ! 1) ''createdAt'' = Some (JNum 1700000000000)"
    "get_prop (?xs ! 1) ''expiryTs'' = Some JNull"
    by (simp_all add: json_of_link_def)
  note t = redirect_changes_only_visits [OF m l f v refl]
  note saved = t [THEN conjunct1]
  note loaded = t [THEN conjunct2, THEN conjunct1]
  note len = t [THEN conjunct2, THEN conjunct2, THEN conjunct1]
  note others = t [THEN conjunct2, THEN conjunct2, THEN conjunct2, THEN conjunct1, rule_format]
  note names = t [THEN conjunct2, THEN conjunct2, THEN conjunct2, THEN conjunct2, THEN conjunct1]
  note props = t [THEN conjunct2, THEN conjunct2, THEN conjunct2, THEN conjunct2,
      THEN conjunct2, THEN conjunct1, rule_format]
  note appended = t [THEN conjunct2, THEN conjunct2, THEN conjunct2, THEN conjunct2,
      THEN conjunct2, THEN conjunct2, THEN conjunct1]
  have c1: "length ?xs' = 2"
    using len by simp
  have c2: "?xs' ! 0 = ?xs ! 0"
    using others [of 0] by simp
  have c3: "keys_of (?xs' ! 1) = [''code'', ''longUrl'', ''createdAt'', ''expiryTs'', ''visits'']"
    using names k by simp
  have c4: "get_prop (?xs' ! 1) ''code'' = Some (JStr ''abc123'')"
    using props [of "''code''"] by (simp add: get_prop_link)
  have c5: "get_prop (?xs' ! 1) ''longUrl'' = Some (JStr ''https://example.com/page'')"
    using props [of "''longUrl''"] by (simp add: get_prop_link)
  have c6: "get_prop (?xs' ! 1) ''createdAt'' = Some (JNum 1700000000000)"
    using props [of "''createdAt''"] p(1) by simp
  have c7: "get_prop (?xs' ! 1) ''expiryTs'' = Some JNull"
    using props [of "''expiryTs''"] p(2) by simp
  have c8: "get_prop (?xs' ! 1) ''visits'' = Some (JArr [json_of_visit (new_visit ?e)])"
    using appended by simp
  from saved loaded c1 c2 c3 c4 c5 c6 c7 c8
  show ?thesis
    using m l f v by blast
qed



section \<open>The creation flow and the statistics\<close>

lemma lower_codes_links: "lower_codes (map json_of_link rs) = Inr (map (\<lambda>l. toLowerCase (code l)) rs)"
  by (induction rs) (simp_all add: get_prop_link)

lemma existing_codes_links:
  "existing_codes (json_of_links rs) = Inr (map (\<lambda>l. toLowerCase (code l)) rs)"
  by (simp add: existing_codes_def json_of_links_def lower_codes_links)


lemma onSubmit_rejects:
  assumes "existing_codes (links st) = Inr existing"
    and "r \<in> set (rows st)" and "has_errors (validate P r existing)"
  shows "onSubmit P st =
    st\<lparr>rows := map (\<lambda>r. r\<lparr>errors := validate P r existing\<rparr>) (rows st),
       alerts := alerts st @ [''Fix errors first.'']\<rparr>"
proof -
  have "list_ex (\<lambda>r. has_errors (errors r))
      (map (\<lambda>r. r\<lparr>errors := validate P r existing\<rparr>) (rows st))"
    using assms(2,3) by (auto simp: list_ex_iff)
  with assms(1) show ?thesis
    by (simp add: onSubmit_def Let_def)
qed


lemma onSubmit_creates:
  assumes "existing_codes (links st) = Inr existing"
    and "\<forall>r\<in>set (rows st). \<not> has_errors (validate P r existing)"
  shows "links (onSubmit P st) =
      JArr (submitToBackend P (map (to_item P) (rows st)) @ elements (links st)) \<and>
    local_storage (onSubmit P st) = saveLinks (links (onSubmit P st)) (local_storage st)"
proof -
  let ?validated = "map (\<lambda>r. r\<lparr>errors := validate P r existing\<rparr>) (rows st)"
  have "\<not> list_ex (\<lambda>r. has_errors (errors r)) ?validated"
    using assms(2) by (auto simp: list_ex_iff)
  moreover have "map (to_item P) ?validated = map (to_item P) (rows st)"
    by (simp add: to_item_def)
  ultimately show ?thesis
    using assms(1) by (simp add: onSubmit_def Let_def del: map_map)
qed




text \<open>
  Claim C8. On a store of records with non-empty codes, \<open>validate\<close> reports
  \<open>Code taken\<close> for a row exactly when the sanitized preferred code, lowercased, equals the
  lowercased code of some stored record; and \<open>onSubmit\<close> then rejects the batch.
\<close>

theorem preferred_code_taken_ignoring_case:
  assumes "\<forall>l\<in>set rs. code l \<noteq> []"
  shows "existing_codes (json_of_links rs) = Inr (map (\<lambda>l. toLowerCase (code l)) rs) \<and>
    (err_preferredCode (validate P r (map (\<lambda>l. toLowerCase (code l)) rs)) = Some ''Code taken''
     \<longleftrightarrow> (\<exists>l\<in>set rs. toLowerCase (sanitizeCode (row_preferredCode r)) = toLowerCase (code l))) \<and>
    (links st = json_of_links rs \<longrightarrow> r \<in> set (rows st) \<longrightarrow>
     (\<exists>l\<in>set rs. toLowerCase (sanitizeCode (row_preferredCode r)) = toLowerCase (code l)) \<longrightarrow>
     links (onSubmit P st) = links st \<and> local_storage (onSubmit P st) = local_storage st)"
proof -
  let ?existing = "map (\<lambda>l. toLowerCase (code l)) rs"
  let ?sc = "sanitizeCode (row_preferredCode r)"
  have nonempty: "[] \<notin> set ?existing"
    using assms by (auto simp: toLowerCase_def)
  have sc: "?sc = [] \<longleftrightarrow> toLowerCase ?sc = []"
    by (simp add: toLowerCase_def)
  have empty: "sanitizeCode [] = []"
    by (simp add: sanitizeCode_def trim_def)
  have taken: "err_preferredCode (validate P r ?existing) = Some ''Code taken'' \<longleftrightarrow>
      toLowerCase ?sc \<in> set ?existing"
  proof (cases "row_preferredCode r = []")
    case True
    with nonempty empty show ?thesis
      by (simp add: validate_def toLowerCase_def)
  next
    case False
    with nonempty sc show ?thesis
      by (auto simp: validate_def Let_def)
  qed
  have rej: "links (onSubmit P st) = links st \<and> local_storage (onSubmit P st) = local_storage st"
    if "links st = json_of_links rs" "r \<in> set (rows st)" "toLowerCase ?sc \<in> set ?existing"
  proof -
    have "err_preferredCode (validate P r ?existing) \<noteq> None"
      using taken that(3) by simp
    then have "has_errors (validate P r ?existing)"
      by (simp add: has_errors_def)
    with that(1,2) show ?thesis
      using onSubmit_rejects [of st ?existing r P] by (simp add: existing_codes_links)
  qed
  have mem: "toLowerCase ?sc \<in> set ?existing \<longleftrightarrow>
      (\<exists>l\<in>set rs. toLowerCase ?sc = toLowerCase (code l))"
    by auto
  show ?thesis
    using taken rej unfolding mem by (simp add: existing_codes_links)
qed

text \<open>
  Claim C8 at a store holding \<open>AbC123\<close>: the preferred code \<open>abc123\<close> is taken,
  \<open>abc124\<close> is not.
\<close>

theorem preferred_code_taken_ignoring_case_witness:
  "\<exists>P st r r' l.
     P = \<lparr>URL_protocol = (\<lambda>u. if take 8 u = ''https://'' then Some ''https:'' else None),
          Number_integer = (\<lambda>s. None), now_at = (\<lambda>i. 1700000000000),
          random_at = (\<lambda>i j. 0)\<rparr> \<and>
     l = \<lparr>code = ''AbC123'', longUrl = ''https://example.com/page'',
          createdAt = 1700000000000, expiryTs = None, visits = []\<rparr> \<and>
     r = \<lparr>row_longUrl = ''https://example.com/other'', row_validityMinutes = [],
          row_preferredCode = ''abc123'', errors = no_errors\<rparr> \<and>
     r' = \<lparr>row_longUrl = ''https://example.com/other'', row_validityMinutes = [],
          row_preferredCode = ''abc124'', errors = no_errors\<rparr> \<and>
     st = \<lparr>links = json_of_links [l], rows = [r], createdBatch = [],
           local_storage = Map.empty, alerts = [], uncaught = None\<rparr> \<and>
     code l \<noteq> [] \<and>
     toLowerCase (sanitizeCode (row_preferredCode r)) = toLowerCase (code l) \<and>
     toLowerCase (sanitizeCode (row_preferredCode r')) \<noteq> toLowerCase (code l) \<and>
     existing_codes (json_of_links [l]) = Inr [''abc123''] \<and>
     err_preferredCode (validate P r [''abc123'']) = Some ''Code taken'' \<and>
     err_preferredCode (validate P r' [''abc123'']) \<noteq> Some ''Code taken'' \<and>
     links (onSubmit P st) = links st \<and>
     local_storage (onSubmit P st) = local_storage st"
proof -
  let ?P = "\<lparr>URL_protocol = (\<lambda>u. if take 8 u = ''https://'' then Some ''https:'' else None),
          Number_integer = (\<lambda>s. None :: int option), now_at = (\<lambda>i. 1700000000000 :: int),
          random_at = (\<lambda>i j. 0 :: 8 word)\<rparr>"
  let ?l = "\<lparr>code = ''AbC123'', longUrl = ''https://example.com/page'',
         createdAt = 1700000000000, expiryTs = None, visits = []\<rparr>"
  let ?r = "\<lparr>row_longUrl = ''https://example.com/other'', row_validityMinutes = [],
      row_preferredCode = ''abc123'', errors = no_errors\<rparr>"
  let ?r' = "\<lparr>row_longUrl = ''https://example.com/other'', row_validityMinutes = [],
      row_preferredCode = ''abc124'', errors = no_errors\<rparr>"
  let ?st = "\<lparr>links = json_of_links [?l], rows = [?r], createdBatch = [],
           local_storage = Map.empty, alerts = [], uncaught = None\<rparr>"
  have low: "toLowerCase ''AbC123'' = ''abc123''"
    by (simp add: toLowerCase_def lower_char_def eq_char_of char_of_eq_iff)
  have s1: "toLowerCase (sanitizeCode ''abc123'') = ''abc123''"
    by (simp add: sanitizeCode_def trim_def is_code_char_def is_space_def toLowerCase_def
        lower_char_def)
  have s2: "toLowerCase (sanitizeCode ''abc124'') = ''abc124''"
    by (simp add: sanitizeCode_def trim_def is_code_char_def is_space_def toLowerCase_def
        lower_char_def)
  have "code ?l \<noteq> [] \<and>
     toLowerCase (sanitizeCode (row_preferredCode ?r)) = toLowerCase (code ?l) \<and>
     toLowerCase (sanitizeCode (row_preferredCode ?r')) \<noteq> toLowerCase (code ?l) \<and>
     existing_codes (json_of_links [?l]) = Inr [''abc123''] \<and>
     err_preferredCode (validate ?P ?r [''abc123'']) = Some ''Code taken'' \<and>
     err_preferredCode (validate ?P ?r' [''abc123'']) \<noteq> Some ''Code taken'' \<and>
     links (onSubmit ?P ?st) = links ?st \<and>
     local_storage (onSubmit ?P ?st) = local_storage ?st"
    using preferred_code_taken_ignoring_case [of "[?l]" ?P ?r ?st]
      preferred_code_taken_ignoring_case [of "[?l]" ?P ?r' ?st]
      low s1 s2
    by simp
  then show ?thesis
    by (intro exI [of _ ?P] exI [of _ ?st] exI [of _ ?r] exI [of _ ?r'] exI [of _ ?l]) simp
qed


lemma sanitize_abc: "sanitizeCode ''abc'' = ''abc''"
  by (simp add: sanitizeCode_def trim_def is_code_char_def is_space_def)

lemma randomCode_zero: "randomCode 6 (\<lambda>j. 0) = ''000000''"
proof -
  have "[0..<6] = [0, 1, 2, 3, 4, 5]"
    by (simp add: upt_rec)
  then show ?thesis
    by (simp add: randomCode_def chars_def)
qed

text \<open>
  Claim C3 fails on the code. On an empty store, a batch of two valid rows that both ask for
  the preferred code \<open>abc\<close> passes validation, which compares each row with the stored codes
  only, and the store then holds two records with the code \<open>abc\<close>.
\<close>

theorem onSubmit_duplicate_codes:
  "links (onSubmit
      \<lparr>URL_protocol = (\<lambda>u. if take 8 u = ''https://'' then Some ''https:'' else None),
       Number_integer = (\<lambda>s. None), now_at = (\<lambda>i. 1700000000000),
       random_at = (\<lambda>i j. 0)\<rparr>
      \<lparr>links = JArr [],
       rows = [\<lparr>row_longUrl = ''https://a.example/'', row_validityMinutes = [],
                row_preferredCode = ''abc'', errors = no_errors\<rparr>,
               \<lparr>row_longUrl = ''https://b.example/'', row_validityMinutes = [],
                row_preferredCode = ''abc'', errors = no_errors\<rparr>],
       createdBatch = [], local_storage = Map.empty, alerts = [], uncaught = None\<rparr>) =
   json_of_links
     [\<lparr>code = ''abc'', longUrl = ''https://a.example/'', createdAt = 1700000000000,
       expiryTs = None, visits = []\<rparr>,
      \<lparr>code = ''abc'', longUrl = ''https://b.example/'', createdAt = 1700000000000,
       expiryTs = None, visits = []\<rparr>]"
proof -
  have "[0..<2] = [0, 1]"
    by (simp add: upt_rec)
  then show ?thesis
    by (simp add: onSubmit_def existing_codes_def validate_def isValidUrl_def has_errors_def
        sanitize_abc toLowerCase_def lower_char_def to_item_def submitToBackend_def create_def
        trim_def is_space_def elements_def json_of_links_def Let_def)
qed

text \<open>
  A generated code is not compared with the stored codes either: when the random bytes are all
  zero the new record gets the code \<open>000000\<close>, which the store already holds.
\<close>

lemma onSubmit_random_collision:
  "links (onSubmit
      \<lparr>URL_protocol = (\<lambda>u. if take 8 u = ''https://'' then Some ''https:'' else None),
       Number_integer = (\<lambda>s. None), now_at = (\<lambda>i. 1700000000000),
       random_at = (\<lambda>i j. 0)\<rparr>
      \<lparr>links = json_of_links
         [\<lparr>code = ''000000'', longUrl = ''https://a.example/'', createdAt = 1600000000000,
           expiryTs = None, visits = []\<rparr>],
       rows = [\<lparr>row_longUrl = ''https://b.example/'', row_validityMinutes = [],
                row_preferredCode = [], errors = no_errors\<rparr>],
       createdBatch = [], local_storage = Map.empty, alerts = [], uncaught = None\<rparr>) =
   json_of_links
     [\<lparr>code = ''000000'', longUrl = ''https://b.example/'', createdAt = 1700000000000,
       expiryTs = None, visits = []\<rparr>,
      \<lparr>code = ''000000'', longUrl = ''https://a.example/'', createdAt = 1600000000000,
       expiryTs = None, visits = []\<rparr>]"
proof -
  have e: "sanitizeCode [] = []"
    by (simp add: sanitizeCode_def trim_def)
  have ex: "existing_codes (JArr
      [json_of_link \<lparr>code = ''000000'', longUrl = ''https://a.example/'',
         createdAt = 1600000000000, expiryTs = None, visits = []\<rparr>]) = Inr [''000000'']"
    using existing_codes_links
      [of "[\<lparr>code = ''000000'', longUrl = ''https://a.example/'',
         createdAt = 1600000000000, expiryTs = None, visits = []\<rparr>]"]
    by (simp add: json_of_links_def toLowerCase_def lower_char_def)
  show ?thesis
    by (simp add: onSubmit_def ex
        validate_def isValidUrl_def has_errors_def e to_item_def submitToBackend_def create_def randomCode_zero
        trim_def is_space_def elements_def json_of_links_def Let_def)
qed

text \<open>
  Claim C7, as stated, fails. A record whose \<open>expiryTs\<close> is the timestamp 0 is not null and
  is not greater than the current time, yet it is counted as active, not as expired.
\<close>

theorem expiry_zero_counterexample:
  "active 1700000000000
     \<lparr>code = ''abc123'', longUrl = ''https://example.com/page'', createdAt = 0,
      expiryTs = Some 0, visits = []\<rparr> \<and>
   n_expired (stats 1700000000000
     [\<lparr>code = ''abc123'', longUrl = ''https://example.com/page'', createdAt = 0,
       expiryTs = Some 0, visits = []\<rparr>]) = 0"
  by (simp add: active_def stats_def)

text \<open>
  Claim C7, amended. A record is active exactly when its \<open>expiryTs\<close> is null, is 0, or is
  strictly greater than the current time, and expired otherwise; the classification depends on
  the record through \<open>expiryTs\<close> only, and \<open>stats\<close> counts by it.
\<close>

theorem active_is_derived_from_expiry:
  "(active t l \<longleftrightarrow>
      expiryTs l = None \<or> expiryTs l = Some 0 \<or> (\<exists>e. expiryTs l = Some e \<and> e > t)) \<and>
   (expiryTs l = expiryTs l' \<longrightarrow> active t l = active t l') \<and>
   n_active (stats t ls) = length (filter (active t) ls) \<and>
   n_expired (stats t ls) = length (filter (\<lambda>l. \<not> active t l) ls)"
proof -
  have "length ls - length (filter (active t) ls) = length (filter (\<lambda>l. \<not> active t l) ls)"
    using sum_length_filter_compl [of "active t" ls] by simp
  then show ?thesis
    by (auto simp: active_def stats_def split: option.splits)
qed

text \<open>
  Claim C7, amended, at records with no expiry, a future expiry, an expiry equal to the
  current time, a past expiry and the expiry 0.
\<close>

theorem active_is_derived_from_expiry_witness:
  "active 1700000000000
     \<lparr>code = ''a'', longUrl = ''https://example.com/1'', createdAt = 1600000000000,
      expiryTs = None, visits = []\<rparr> \<and>
   active 1700000000000
     \<lparr>code = ''b'', longUrl = ''https://example.com/2'', createdAt = 1600000000000,
      expiryTs = Some 1700000000001, visits = []\<rparr> \<and>
   \<not> active 1700000000000
     \<lparr>code = ''c'', longUrl = ''https://example.com/3'', createdAt = 1600000000000,
      expiryTs = Some 1700000000000, visits = []\<rparr> \<and>
   \<not> active 1700000000000
     \<lparr>code = ''d'', longUrl = ''https://example.com/4'', createdAt = 1600000000000,
      expiryTs = Some 1600003600000, visits = []\<rparr> \<and>
   active 1700000000000
     \<lparr>code = ''e'', longUrl = ''https://example.com/5'', createdAt = 1600000000000,
      expiryTs = Some 0, visits = []\<rparr> \<and>
   active 1700000000000
     \<lparr>code = ''f'', longUrl = ''https://example.com/6'', createdAt = 1650000000000,
      expiryTs = None, visits = []\<rparr>"
proof -
  let ?a = "\<lparr>code = ''a'', longUrl = ''https://example.com/1'', createdAt = 1600000000000,
      expiryTs = None, visits = []\<rparr>"
  let ?b = "\<lparr>code = ''b'', longUrl = ''https://example.com/2'', createdAt = 1600000000000,
      expiryTs = Some 1700000000001, visits = []\<rparr>"
  let ?c = "\<lparr>code = ''c'', longUrl = ''https://example.com/3'', createdAt = 1600000000000,
      expiryTs = Some 1700000000000, visits = []\<rparr>"
  let ?d = "\<lparr>code = ''d'', longUrl = ''https://example.com/4'', createdAt = 1600000000000,
      expiryTs = Some 1600003600000, visits = []\<rparr>"
  let ?e = "\<lparr>code = ''e'', longUrl = ''https://example.com/5'', createdAt = 1600000000000,
      expiryTs = Some 0, visits = []\<rparr>"
  let ?f = "\<lparr>code = ''f'', longUrl = ''https://example.com/6'', createdAt = 1650000000000,
      expiryTs = None, visits = []\<rparr>"
  show ?thesis
    using
      active_is_derived_from_expiry [of 1700000000000 ?a ?f "[]"]
      active_is_derived_from_expiry [of 1700000000000 ?b ?b "[]"]
      active_is_derived_from_expiry [of 1700000000000 ?c ?c "[]"]
      active_is_derived_from_expiry [of 1700000000000 ?d ?d "[]"]
      active_is_derived_from_expiry [of 1700000000000 ?e ?e "[]"]
    by auto
qed

end
